theory Spec2Isabelle
  imports Main "HOL-Library.Char_ord" "HOL-Library.List_Lexorder"
begin

section \<open>Data model (pkg/models as used by pkg/dao/rpm.go)\<close>

text \<open>
  The rows of the four tables the DAO touches. Only the columns that rpm.go reads or
  writes are kept. Identifiers and checksums are Go strings; Epoch is an int32 that is
  only copied and compared, never computed with.
\<close>

record Rpm =
  rpm_UUID :: string
  rpm_Name :: string
  rpm_Arch :: string
  rpm_Version :: string
  rpm_Release :: string
  rpm_Epoch :: int
  rpm_Summary :: string
  rpm_Checksum :: string

record Repository =
  repo_UUID :: string
  repo_URL :: string
  repo_Public :: bool

record RepositoryConfiguration =
  cfg_UUID :: string
  cfg_OrgID :: string
  cfg_RepositoryUUID :: string

record RepositoryRpm =
  rr_RepositoryUUID :: string
  rr_RpmUUID :: string

text \<open>yum.Package, restricted to the fields FilteredConvert reads.\<close>

record yum_Package =
  yum_Name :: string
  yum_Arch :: string
  yum_Version :: string
  yum_Release :: string
  yum_Epoch :: int
  yum_Checksum :: string
  yum_Summary :: string

text \<open>
  Go error values. \<open>Errorf\<close> is \<open>fmt.Errorf\<close> with a plain message, \<open>Wrapf\<close> is
  \<open>fmt.Errorf("...: %w", err)\<close>. \<open>ErrRecordNotFound\<close> and \<open>ErrEmptySlice\<close> are the two
  gorm errors that the calls in rpm.go can produce without the database failing;
  \<open>StoreFailure\<close> stands for every error the database itself reports.
\<close>

datatype error =
    ErrRecordNotFound
  | ErrEmptySlice
  | StoreFailure string
  | Errorf string
  | Wrapf string error

text \<open>A Go call either returns or panics (a slice expression out of range).\<close>

datatype 'a outcome = Returns 'a | Panics

section \<open>The store (gorm over PostgreSQL)\<close>

text \<open>
  The database handle \<open>r.db\<close> is a state that every statement reads and may change.
  Tables are lists in scan order. \<open>uuid_source\<close> and \<open>uuids_drawn\<close> are the stream of
  results of \<open>uuid.NewString()\<close>, drawn by the BeforeCreate hook of every row handed to
  Create. \<open>faults\<close> schedules the outcome of the statements still to be sent: the head is
  consumed by the next statement, \<open>Some e\<close> makes it fail with \<open>e\<close> and change no table,
  and an exhausted schedule means that the store answers. \<open>statements\<close> counts the
  statements sent so far.
\<close>

record db =
  rpms :: "Rpm list"
  repositories :: "Repository list"
  repository_configurations :: "RepositoryConfiguration list"
  repositories_rpms :: "RepositoryRpm list"
  uuid_source :: "nat \<Rightarrow> string"
  uuids_drawn :: nat
  faults :: "error option list"
  statements :: nat

definition send :: "db \<Rightarrow> db \<times> error option" where
  "send d =
     (let d' = d\<lparr>faults := tl (faults d), statements := Suc (statements d)\<rparr>
      in case faults d of Some e # _ \<Rightarrow> (d', Some e) | _ \<Rightarrow> (d', None))"

text \<open>A query: one statement that changes no table.\<close>

definition query :: "(db \<Rightarrow> 'a) \<Rightarrow> db \<Rightarrow> db \<times> (error + 'a)" where
  "query f d = (case send d of (d', Some e) \<Rightarrow> (d', Inl e) | (d', None) \<Rightarrow> (d', Inr (f d')))"

text \<open>\<open>Where("checksum in (?)", cs).Model(&Rpm{}).Pluck("checksum", ...)\<close>\<close>

definition pluck_checksums :: "string list \<Rightarrow> db \<Rightarrow> db \<times> (error + string list)" where
  "pluck_checksums cs = query (\<lambda>d. map rpm_Checksum (filter (\<lambda>r. rpm_Checksum r \<in> set cs) (rpms d)))"

text \<open>\<open>Where("checksum in (?)", cs).Model(&Rpm{}).Pluck("uuid", ...)\<close>\<close>

definition pluck_uuids :: "string list \<Rightarrow> db \<Rightarrow> db \<times> (error + string list)" where
  "pluck_uuids cs = query (\<lambda>d. map rpm_UUID (filter (\<lambda>r. rpm_Checksum r \<in> set cs) (rpms d)))"

text \<open>\<open>Model(&RepositoryRpm{}).Where("repository_uuid = ?", u).Pluck("rpm_uuid", ...)\<close>\<close>

definition pluck_repo_rpm_uuids :: "string \<Rightarrow> db \<Rightarrow> db \<times> (error + string list)" where
  "pluck_repo_rpm_uuids u =
     query (\<lambda>d. map rr_RpmUUID (filter (\<lambda>m. rr_RepositoryUUID m = u) (repositories_rpms d)))"

text \<open>
  \<open>Where("UUID = ?", uuid).First(&found)\<close>: the first matching row, or
  \<open>ErrRecordNotFound\<close> when there is none.
\<close>

definition first_repository :: "string \<Rightarrow> db \<Rightarrow> db \<times> (error + Repository)" where
  "first_repository u d =
     (case send d of
        (d', Some e) \<Rightarrow> (d', Inl e)
      | (d', None) \<Rightarrow>
          (case filter (\<lambda>r. repo_UUID r = u) (repositories d') of
             [] \<Rightarrow> (d', Inl ErrRecordNotFound)
           | r # _ \<Rightarrow> (d', Inr r)))"

text \<open>
  Modelled from the spec: the BeforeCreate hook of \<open>models.Base\<close>, which is not among
  the sources. The spec says of a package's identity: "opaque unique identifier,
  assigned on creation". Every row handed to Create gets the next identifier of the
  stream, whether the row is inserted or skipped.
\<close>

fun stamp :: "(nat \<Rightarrow> string) \<Rightarrow> nat \<Rightarrow> Rpm list \<Rightarrow> Rpm list" where
  "stamp src n [] = []"
| "stamp src n (r # rs) = r\<lparr>rpm_UUID := src n\<rparr> # stamp src (Suc n) rs"

text \<open>
  Create with \<open>ON CONFLICT (checksum) DO NOTHING\<close>. gorm refuses an empty slice with
  \<open>ErrEmptySlice\<close> ("empty slice found") without sending anything. The hook runs
  before the statement is sent. Rows are inserted in order; a row whose checksum is
  already in the table, or was inserted earlier by the same statement, is skipped.
  \<open>RowsAffected\<close> counts the rows inserted.
\<close>

definition insert_rpm :: "Rpm list \<times> int \<Rightarrow> Rpm \<Rightarrow> Rpm list \<times> int" where
  "insert_rpm acc r =
     (if rpm_Checksum r \<in> rpm_Checksum ` set (fst acc) then acc
      else (fst acc @ [r], snd acc + 1))"

definition insert_rpms :: "(nat \<Rightarrow> string) \<Rightarrow> nat \<Rightarrow> Rpm list \<Rightarrow> Rpm list \<Rightarrow> Rpm list \<times> int" where
  "insert_rpms src k tbl rows = foldl insert_rpm (tbl, 0) (stamp src k rows)"

definition create_rpms :: "Rpm list \<Rightarrow> db \<Rightarrow> db \<times> (error + int)" where
  "create_rpms rows d =
     (if rows = [] then (d, Inl ErrEmptySlice)
      else
        case send (d\<lparr>uuids_drawn := uuids_drawn d + length rows\<rparr>) of
          (d', Some e) \<Rightarrow> (d', Inl e)
        | (d', None) \<Rightarrow>
            (let res = insert_rpms (uuid_source d) (uuids_drawn d) (rpms d') rows
             in (d'\<lparr>rpms := fst res\<rparr>, Inr (snd res))))"

text \<open>Create with \<open>ON CONFLICT (repository_uuid, rpm_uuid) DO NOTHING\<close>.\<close>

definition insert_repository_rpm :: "RepositoryRpm list \<Rightarrow> RepositoryRpm \<Rightarrow> RepositoryRpm list" where
  "insert_repository_rpm tbl m = (if m \<in> set tbl then tbl else tbl @ [m])"

definition create_repository_rpms :: "RepositoryRpm list \<Rightarrow> db \<Rightarrow> db \<times> error option" where
  "create_repository_rpms rows d =
     (if rows = [] then (d, Some ErrEmptySlice)
      else case send d of
             (d', Some e) \<Rightarrow> (d', Some e)
           | (d', None) \<Rightarrow>
               (d'\<lparr>repositories_rpms := foldl insert_repository_rpm (repositories_rpms d') rows\<rparr>, None))"

text \<open>
  \<open>Unscoped().Where("repositories_rpms.repository_uuid = ?", u).
    Where("repositories_rpms.rpm_uuid in (?)", us).Delete(&RepositoryRpm{})\<close>
\<close>

definition delete_repository_rpms :: "string \<Rightarrow> string list \<Rightarrow> db \<Rightarrow> db \<times> error option" where
  "delete_repository_rpms u us d =
     (case send d of
        (d', Some e) \<Rightarrow> (d', Some e)
      | (d', None) \<Rightarrow>
          (d'\<lparr>repositories_rpms :=
                filter (\<lambda>m. \<not> (rr_RepositoryUUID m = u \<and> rr_RpmUUID m \<in> set us))
                  (repositories_rpms d')\<rparr>, None))"

text \<open>
  \<open>Model(&Rpm{}).Where("repositories_rpms is NULL").Where("rpms.uuid in (?)", us).
    Joins("left join repositories_rpms on rpms.uuid = repositories_rpms.rpm_uuid").
    Pluck("rpms.uuid", ...)\<close>: the packages among \<open>us\<close> that no association row joins.
\<close>

definition pluck_dangling :: "string list \<Rightarrow> db \<Rightarrow> db \<times> (error + string list)" where
  "pluck_dangling us =
     query (\<lambda>d. map rpm_UUID
       (filter (\<lambda>r. rpm_UUID r \<in> set us \<and> rpm_UUID r \<notin> rr_RpmUUID ` set (repositories_rpms d))
          (rpms d)))"

text \<open>\<open>Unscoped().Where("rpms.uuid in (?)", us).Delete(&Rpm{})\<close>\<close>

definition delete_rpms :: "string list \<Rightarrow> db \<Rightarrow> db \<times> error option" where
  "delete_rpms us d =
     (case send d of
        (d', Some e) \<Rightarrow> (d', Some e)
      | (d', None) \<Rightarrow> (d'\<lparr>rpms := filter (\<lambda>r. rpm_UUID r \<notin> set us) (rpms d')\<rparr>, None))"

section \<open>The DAO\<close>

record rpmDaoImpl =
  pagedRpmInsertsLimit :: int

text \<open>
  \<open>GetRpmDao\<close>. The two values it reads from package config, the constant
  \<open>DefaultPagedRpmInsertsLimit\<close> and the configured option, are parameters; \<open>options\<close> is
  the pointer to \<open>RpmDaoOptions\<close> (outer \<open>None\<close>: nil) holding the pointer
  \<open>PagedRpmInsertsLimit\<close> (inner \<open>None\<close>: nil).
\<close>

definition GetRpmDao :: "int \<Rightarrow> int \<Rightarrow> int option option \<Rightarrow> rpmDaoImpl" where
  "GetRpmDao DefaultPagedRpmInsertsLimit configured options =
     (let v = (case options of Some (Some x) \<Rightarrow> x | _ \<Rightarrow> configured)
      in \<lparr>pagedRpmInsertsLimit = (if v > 0 then v else DefaultPagedRpmInsertsLimit)\<rparr>)"

subsection \<open>PagedRpmInsert\<close>

text \<open>
  The slice expression \<open>(*pkgs)[i:end]\<close>; it panics unless \<open>0 \<le> i \<le> end \<le> len\<close>.
\<close>

definition slice :: "'a list \<Rightarrow> int \<Rightarrow> int \<Rightarrow> 'a list outcome" where
  "slice xs i e =
     (if 0 \<le> i \<and> i \<le> e \<and> e \<le> int (length xs)
      then Returns (take (nat (e - i)) (drop (nat i) xs)) else Panics)"

text \<open>
  The loop of \<open>PagedRpmInsert\<close>, from the state at the loop head. It may not terminate
  (a chunk of zero would never advance were the empty Create not refused), so it is a
  partial function: \<open>None\<close> is a run that never returns. The index and the chunk are Go
  ints; \<open>i + chunk\<close> cannot wrap, because \<open>i\<close> is below the length of a slice held in
  memory and is a multiple of \<open>chunk\<close>.
\<close>

partial_function (option) paged_loop ::
  "int \<Rightarrow> Rpm list \<Rightarrow> int \<Rightarrow> int \<Rightarrow> db \<Rightarrow> (db \<times> int \<times> error option) outcome option" where
  "paged_loop chunk pkgs i count d =
     (if i < int (length pkgs) then
        (case slice pkgs i (if i + chunk > int (length pkgs) then int (length pkgs) else i + chunk) of
           Panics \<Rightarrow> Some Panics
         | Returns rows \<Rightarrow>
             (case create_rpms rows d of
                (d', Inl e) \<Rightarrow> Some (Returns (d', count, Some e))
              | (d', Inr n) \<Rightarrow> paged_loop chunk pkgs (i + chunk) (count + n) d'))
      else Some (Returns (d, count, None)))"

definition PagedRpmInsert ::
  "rpmDaoImpl \<Rightarrow> Rpm list \<Rightarrow> db \<Rightarrow> (db \<times> int \<times> error option) outcome option" where
  "PagedRpmInsert r pkgs d =
     (if length pkgs = 0 then Some (Returns (d, 0, None))
      else paged_loop (pagedRpmInsertsLimit r) pkgs 0 0 d)"

subsection \<open>InsertForRepository and its helpers\<close>

definition fetchRepo :: "string \<Rightarrow> db \<Rightarrow> db \<times> (error + Repository)" where
  "fetchRepo uuid d = first_repository uuid d"

fun stringInSlice :: "string \<Rightarrow> string list \<Rightarrow> bool" where
  "stringInSlice a [] = False"
| "stringInSlice a (b # list) = (if b = a then True else stringInSlice a list)"

text \<open>The converted rows carry the zero value of \<open>Base.UUID\<close>; Create assigns it.\<close>

fun FilteredConvert :: "yum_Package list \<Rightarrow> string list \<Rightarrow> Rpm list" where
  "FilteredConvert [] excludeChecksums = []"
| "FilteredConvert (yumPkg # yumPkgs) excludeChecksums =
     (if \<not> stringInSlice (yum_Checksum yumPkg) excludeChecksums
      then \<lparr>rpm_UUID = [], rpm_Name = yum_Name yumPkg, rpm_Arch = yum_Arch yumPkg,
             rpm_Version = yum_Version yumPkg, rpm_Release = yum_Release yumPkg,
             rpm_Epoch = yum_Epoch yumPkg, rpm_Summary = yum_Summary yumPkg,
             rpm_Checksum = yum_Checksum yumPkg\<rparr> # FilteredConvert yumPkgs excludeChecksums
      else FilteredConvert yumPkgs excludeChecksums)"

definition prepRepositoryRpms :: "Repository \<Rightarrow> string list \<Rightarrow> RepositoryRpm list" where
  "prepRepositoryRpms repo rpm_uuids =
     map (\<lambda>u. \<lparr>rr_RepositoryUUID = repo_UUID repo, rr_RpmUUID = u\<rparr>) rpm_uuids"

definition difference :: "string list \<Rightarrow> string list \<Rightarrow> string list" where
  "difference a b = (let mb = set b in filter (\<lambda>x. x \<notin> mb) a)"

definition deleteUnneeded :: "Repository \<Rightarrow> string list \<Rightarrow> db \<Rightarrow> db \<times> error option" where
  "deleteUnneeded repo rpm_uuids d =
     (case pluck_repo_rpm_uuids (repo_UUID repo) d of
        (d1, Inl e) \<Rightarrow> (d1, Some e)
      | (d1, Inr existing_rpm_uuids) \<Rightarrow>
          (let rpmsToDelete = difference existing_rpm_uuids rpm_uuids in
           case delete_repository_rpms (repo_UUID repo) rpmsToDelete d1 of
             (d2, Some e) \<Rightarrow> (d2, Some e)
           | (d2, None) \<Rightarrow>
               (case pluck_dangling rpmsToDelete d2 of
                  (d3, Inl e) \<Rightarrow> (d3, Some e)
                | (d3, Inr dangling_rpm_uuids) \<Rightarrow>
                    if length dangling_rpm_uuids = 0 then (d3, None)
                    else delete_rpms dangling_rpm_uuids d3)))"

definition InsertForRepository ::
  "rpmDaoImpl \<Rightarrow> string \<Rightarrow> yum_Package list \<Rightarrow> db \<Rightarrow> (db \<times> int \<times> error option) outcome option" where
  "InsertForRepository r repoUuid pkgs d =
     (case fetchRepo repoUuid d of
        (d1, Inl e) \<Rightarrow> Some (Returns (d1, 0, Some (Wrapf ''failed to fetchRepo: '' e)))
      | (d1, Inr repo) \<Rightarrow>
          (let checksums = map yum_Checksum pkgs in
           case pluck_checksums checksums d1 of
             (d2, Inl e) \<Rightarrow>
               Some (Returns (d2, 0, Some (Wrapf ''failed retrieving existing checksum in rpms: '' e)))
           | (d2, Inr existingChecksums) \<Rightarrow>
               (case PagedRpmInsert r (FilteredConvert pkgs existingChecksums) d2 of
                  None \<Rightarrow> None
                | Some Panics \<Rightarrow> Some Panics
                | Some (Returns (d3, rowsAffected, Some e)) \<Rightarrow>
                    Some (Returns (d3, rowsAffected, Some (Wrapf ''failed to PagedRpmInsert: '' e)))
                | Some (Returns (d3, rowsAffected, None)) \<Rightarrow>
                    (case pluck_uuids checksums d3 of
                       (d4, Inl e) \<Rightarrow>
                         Some (Returns (d4, rowsAffected,
                           Some (Wrapf ''failed retrieving rpms.uuid for the package checksums: '' e)))
                     | (d4, Inr rpmUuids) \<Rightarrow>
                         (case deleteUnneeded repo rpmUuids d4 of
                            (d5, Some e) \<Rightarrow>
                              Some (Returns (d5, rowsAffected, Some (Wrapf ''failed to deleteUnneeded: '' e)))
                          | (d5, None) \<Rightarrow>
                              (case create_repository_rpms (prepRepositoryRpms repo rpmUuids) d5 of
                                 (d6, Some e) \<Rightarrow>
                                   Some (Returns (d6, rowsAffected, Some (Wrapf ''failed to Create: '' e)))
                               | (d6, None) \<Rightarrow> Some (Returns (d6, rowsAffected, None))))))))"

subsection \<open>List\<close>

record api_RepositoryRpm =
  api_UUID :: string
  api_Name :: string
  api_Arch :: string
  api_Version :: string
  api_Release :: string
  api_Epoch :: int
  api_Summary :: string
  api_Checksum :: string

record api_RepositoryRpmCollectionResponse =
  Data :: "api_RepositoryRpm list"
  Meta_Count :: int
  Meta_Offset :: int
  Meta_Limit :: int

text \<open>The zero value \<open>api.RepositoryRpmCollectionResponse{}\<close>.\<close>

definition empty_response :: api_RepositoryRpmCollectionResponse where
  "empty_response = \<lparr>Data = [], Meta_Count = 0, Meta_Offset = 0, Meta_Limit = 0\<rparr>"

definition modelToApiFields :: "Rpm \<Rightarrow> api_RepositoryRpm" where
  "modelToApiFields i =
     \<lparr>api_UUID = rpm_UUID i, api_Name = rpm_Name i, api_Arch = rpm_Arch i,
      api_Version = rpm_Version i, api_Release = rpm_Release i, api_Epoch = rpm_Epoch i,
      api_Summary = rpm_Summary i, api_Checksum = rpm_Checksum i\<rparr>"

definition RepositoryRpmListFromModelToResponse :: "Rpm list \<Rightarrow> api_RepositoryRpm list" where
  "RepositoryRpmListFromModelToResponse repoRpm = map modelToApiFields repoRpm"

text \<open>
  \<open>Where("org_id = ? and uuid = ?", ...).Find(&repoConfigs).Count(&count)\<close>: two
  statements, the second skipped when the first has failed. The result is Go's pair
  \<open>(bool, error)\<close>.
\<close>

definition isOwnedRepository :: "string \<Rightarrow> string \<Rightarrow> db \<Rightarrow> db \<times> bool \<times> error option" where
  "isOwnedRepository orgID repositoryConfigUUID d =
     (let owned = (\<lambda>d. filter (\<lambda>c. cfg_OrgID c = orgID \<and> cfg_UUID c = repositoryConfigUUID)
                          (repository_configurations d)) in
      case query owned d of
        (d1, Inl e) \<Rightarrow> (d1, False, Some e)
      | (d1, Inr repoConfigs) \<Rightarrow>
          (case query (\<lambda>d. int (length (owned d))) d1 of
             (d2, Inl e) \<Rightarrow> (d2, False, Some e)
           | (d2, Inr count) \<Rightarrow> if count = 0 then (d2, False, None) else (d2, True, None)))"

text \<open>gorm writes \<open>OFFSET\<close> and \<open>LIMIT\<close> into the statement only for positive values.\<close>

definition offset_limit :: "int \<Rightarrow> int \<Rightarrow> 'a list \<Rightarrow> 'a list" where
  "offset_limit offset limit xs =
     (let ys = (if offset > 0 then drop (nat offset) xs else xs)
      in if limit > 0 then take (nat limit) ys else ys)"

text \<open>
  \<open>Preload("Repository").Find(&repositoryConfig, "uuid = ?", ...)\<close>: the configuration
  and, when one was found, a second statement for its repository. The value is the
  \<open>Repository.UUID\<close> of the loaded struct, empty when nothing was loaded.
\<close>

definition find_config_repository :: "string \<Rightarrow> db \<Rightarrow> db \<times> (error + string)" where
  "find_config_repository u d =
     (case query (\<lambda>d. filter (\<lambda>c. cfg_UUID c = u) (repository_configurations d)) d of
        (d1, Inl e) \<Rightarrow> (d1, Inl e)
      | (d1, Inr []) \<Rightarrow> (d1, Inr [])
      | (d1, Inr (c # _)) \<Rightarrow>
          (case query (\<lambda>d. filter (\<lambda>p. repo_UUID p = cfg_RepositoryUUID c) (repositories d)) d1 of
             (d2, Inl e) \<Rightarrow> (d2, Inl e)
           | (d2, Inr []) \<Rightarrow> (d2, Inr [])
           | (d2, Inr (p # _)) \<Rightarrow> (d2, Inr (repo_UUID p))))"

text \<open>The packages joined to the association rows of one repository.\<close>

definition repository_rpms :: "string \<Rightarrow> db \<Rightarrow> Rpm list" where
  "repository_rpms u d =
     [r. r \<leftarrow> rpms d, m \<leftarrow> repositories_rpms d,
         rpm_UUID r = rr_RpmUUID m \<and> rr_RepositoryUUID m = u]"

text \<open>
  \<open>List\<close>. \<open>DBErrorToApi\<close> is defined elsewhere in package dao and is a parameter. The
  result is the store and Go's triple (response, total, error).
\<close>

definition List ::
  "(error \<Rightarrow> error) \<Rightarrow> string \<Rightarrow> string \<Rightarrow> int \<Rightarrow> int \<Rightarrow> db
     \<Rightarrow> db \<times> api_RepositoryRpmCollectionResponse \<times> int \<times> error option" where
  "List DBErrorToApi orgID repositoryConfigUUID limit offset d =
     (if orgID = [] then (d, empty_response, 0, Some (Errorf ''orgID can not be an empty string''))
      else
        case isOwnedRepository orgID repositoryConfigUUID d of
          (d1, False, Some err) \<Rightarrow> (d1, empty_response, 0, Some (DBErrorToApi err))
        | (d1, False, None) \<Rightarrow>
            (d1, empty_response, 0,
             Some (Errorf (''repositoryConfigUUID = '' @ repositoryConfigUUID @ '' is not owned'')))
        | (d1, True, _) \<Rightarrow>
            (case find_config_repository repositoryConfigUUID d1 of
               (d2, Inl err) \<Rightarrow> (d2, empty_response, 0, Some err)
             | (d2, Inr repoUUID) \<Rightarrow>
                 (case query (\<lambda>d. int (length (repository_rpms repoUUID d))) d2 of
                    (d3, Inl err) \<Rightarrow> (d3, empty_response, 0, Some err)
                  | (d3, Inr totalRpms) \<Rightarrow>
                      (case query (\<lambda>d. offset_limit offset limit (repository_rpms repoUUID d)) d3 of
                         (d4, Inl err) \<Rightarrow> (d4, empty_response, totalRpms, Some err)
                       | (d4, Inr repoRpms) \<Rightarrow>
                           (d4,
                            \<lparr>Data = RepositoryRpmListFromModelToResponse repoRpms,
                             Meta_Count = totalRpms, Meta_Offset = offset, Meta_Limit = limit\<rparr>,
                            totalRpms, None)))))"

subsection \<open>Search\<close>

record api_SearchRpmRequest =
  req_URLs :: "string list"
  req_Search :: string

record api_SearchRpmResponse =
  res_PackageName :: string
  res_Summary :: string

text \<open>The loop that doubles every requested URL: the URL and the URL followed by a slash.\<close>

fun search_urls :: "string list \<Rightarrow> string list" where
  "search_urls [] = []"
| "search_urls (url # urls) = url # (url @ ''/'') # search_urls urls"

text \<open>
  SQL \<open>LIKE\<close>: \<open>%\<close> matches any sequence, \<open>_\<close> any one character, a backslash takes the
  next pattern character literally. The pattern Search builds always ends in \<open>%\<close>, so a
  backslash is never its last character.
\<close>

fun like :: "string \<Rightarrow> string \<Rightarrow> bool" where
  "like [] s = (s = [])"
| "like (p # ps) s =
     (if p = CHR ''%'' then list_ex (\<lambda>k. like ps (drop k s)) [0..<Suc (length s)]
      else if p = CHR ''_'' then (case s of [] \<Rightarrow> False | _ # t \<Rightarrow> like ps t)
      else if p = CHR 0x5C \<and> ps \<noteq> [] then
        (case s of [] \<Rightarrow> False | c # t \<Rightarrow> c = hd ps \<and> like (tl ps) t)
      else (case s of [] \<Rightarrow> False | c # t \<Rightarrow> c = p \<and> like ps t))"

text \<open>
  The rows of \<open>rpms\<close> inner-joined with their association rows and repositories and
  left-joined with the configurations of the repository, filtered by the three Where
  clauses. A repository without configuration contributes one row whose configuration
  is NULL (\<open>None\<close>), for which \<open>org_id = ?\<close> is not true.
\<close>

definition search_rows :: "string \<Rightarrow> string list \<Rightarrow> string \<Rightarrow> db \<Rightarrow> Rpm list" where
  "search_rows orgID urls pattern d =
     [r. r \<leftarrow> rpms d,
         m \<leftarrow> repositories_rpms d, rr_RpmUUID m = rpm_UUID r,
         p \<leftarrow> repositories d, repo_UUID p = rr_RepositoryUUID m,
         c \<leftarrow> (case filter (\<lambda>c. cfg_RepositoryUUID c = repo_UUID p) (repository_configurations d) of
                 [] \<Rightarrow> [None] | cs \<Rightarrow> map Some cs),
         (case c of None \<Rightarrow> False | Some c \<Rightarrow> cfg_OrgID c = orgID) \<or> repo_Public p,
         like pattern (rpm_Name r),
         repo_URL p \<in> set urls]"

text \<open>
  \<open>DISTINCT ON (rpms.name)\<close> over rows ordered by \<open>rpms.name ASC\<close>: the first row of
  every run of equal names is kept. Names are compared character by character. The
  statement orders by the name alone, so PostgreSQL is free in the order of rows with
  equal names; here they stay in the order of the scan, which is one of the orders it
  may produce.
\<close>

fun distinct_on :: "('a \<Rightarrow> 'k) \<Rightarrow> 'a list \<Rightarrow> 'a list" where
  "distinct_on f [] = []"
| "distinct_on f [x] = [x]"
| "distinct_on f (x # y # xs) =
     (if f x = f y then distinct_on f (x # xs) else x # distinct_on f (y # xs))"

definition Search ::
  "string \<Rightarrow> api_SearchRpmRequest \<Rightarrow> int \<Rightarrow> db \<Rightarrow> db \<times> api_SearchRpmResponse list \<times> error option" where
  "Search orgID request limit d =
     (if orgID = [] then (d, [], Some (Errorf ''orgID can not be an empty string''))
      else if length (req_URLs request) = 0
        then (d, [], Some (Errorf ''request.URLs must contain at least 1 URL''))
      else
        let urls = search_urls (req_URLs request) in
        case query (\<lambda>d. offset_limit 0 limit
                      (map (\<lambda>r. \<lparr>res_PackageName = rpm_Name r, res_Summary = rpm_Summary r\<rparr>)
                         (distinct_on rpm_Name
                            (sort_key rpm_Name (search_rows orgID urls (req_Search request @ ''%'') d))))) d of
          (d', Inl e) \<Rightarrow> (d', [], Some e)
        | (d', Inr dataResponse) \<Rightarrow> (d', dataResponse, None))"

text \<open>
  The state a successful reconciliation of repository \<open>u\<close> with the checksums \<open>cs\<close>
  leaves: every checksum has a package, and the packages associated with \<open>u\<close> are
  exactly the packages with one of these checksums.
\<close>

definition wanted_uuids :: "string list \<Rightarrow> db \<Rightarrow> string list" where
  "wanted_uuids cs d = map rpm_UUID (filter (\<lambda>r. rpm_Checksum r \<in> set cs) (rpms d))"

definition reconciled :: "string \<Rightarrow> string list \<Rightarrow> db \<Rightarrow> bool" where
  "reconciled u cs d \<longleftrightarrow>
     set cs \<subseteq> rpm_Checksum ` set (rpms d)
     \<and> rr_RpmUUID ` {m \<in> set (repositories_rpms d). rr_RepositoryUUID m = u} = set (wanted_uuids cs d)"

subsection \<open>A small store for concrete runs\<close>

definition pkg_a :: Rpm where
  "pkg_a = \<lparr>rpm_UUID = ''u-a'', rpm_Name = ''demo-lib'', rpm_Arch = ''noarch'',
            rpm_Version = ''1.0'', rpm_Release = ''1'', rpm_Epoch = 1,
            rpm_Summary = ''old summary'', rpm_Checksum = ''SHA1:aa''\<rparr>"

definition pkg_b :: Rpm where
  "pkg_b = \<lparr>rpm_UUID = ''u-b'', rpm_Name = ''demo-lib'', rpm_Arch = ''noarch'',
            rpm_Version = ''1.0'', rpm_Release = ''1'', rpm_Epoch = 2,
            rpm_Summary = ''new summary'', rpm_Checksum = ''SHA1:bb''\<rparr>"

definition pkg_c :: Rpm where
  "pkg_c = \<lparr>rpm_UUID = [], rpm_Name = ''test-package'', rpm_Arch = ''x86_64'',
            rpm_Version = ''1.0.0'', rpm_Release = ''123'', rpm_Epoch = 1,
            rpm_Summary = ''Test package summary'', rpm_Checksum = ''SHA1:cc''\<rparr>"

definition yum_c :: yum_Package where
  "yum_c = \<lparr>yum_Name = ''test-package'', yum_Arch = ''x86_64'', yum_Version = ''1.0.0'',
            yum_Release = ''123'', yum_Epoch = 1, yum_Checksum = ''SHA1:cc'',
            yum_Summary = ''Test package summary''\<rparr>"

definition repo_x :: Repository where
  "repo_x = \<lparr>repo_UUID = ''r-x'', repo_URL = ''http://x'', repo_Public = True\<rparr>"

definition repo_y :: Repository where
  "repo_y = \<lparr>repo_UUID = ''r-y'', repo_URL = ''http://y/'', repo_Public = False\<rparr>"

definition config_y :: RepositoryConfiguration where
  "config_y = \<lparr>cfg_UUID = ''c-y'', cfg_OrgID = ''acme'', cfg_RepositoryUUID = ''r-y''\<rparr>"

text \<open>
  Repository \<open>r-x\<close> holds both packages; \<open>r-y\<close>, owned by organisation \<open>acme\<close>, holds
  only the second. New identifiers are \<open>n0\<close>, \<open>n1\<close>, ... written in unary.
\<close>

definition db0 :: db where
  "db0 = \<lparr>rpms = [pkg_a, pkg_b],
          repositories = [repo_x, repo_y],
          repository_configurations = [config_y],
          repositories_rpms =
            [\<lparr>rr_RepositoryUUID = ''r-x'', rr_RpmUUID = ''u-a''\<rparr>,
             \<lparr>rr_RepositoryUUID = ''r-x'', rr_RpmUUID = ''u-b''\<rparr>,
             \<lparr>rr_RepositoryUUID = ''r-y'', rr_RpmUUID = ''u-b''\<rparr>],
          uuid_source = (\<lambda>n. CHR ''n'' # replicate n CHR ''i''),
          uuids_drawn = 0,
          faults = [],
          statements = 0\<rparr>"

text \<open>The four tables of a store state, without the bookkeeping of the model.\<close>

definition contents ::
  "db \<Rightarrow> Rpm list \<times> Repository list \<times> RepositoryConfiguration list \<times> RepositoryRpm list" where
  "contents d = (rpms d, repositories d, repository_configurations d, repositories_rpms d)"

section \<open>Chunked insertion on a store that answers\<close>

lemma send_healthy: "faults d = [] \<Longrightarrow> send d = (d\<lparr>statements := Suc (statements d)\<rparr>, None)"
  by (simp add: send_def)

lemma stamp_append: "stamp src n (xs @ ys) = stamp src n xs @ stamp src (n + length xs) ys"
  by (induction xs arbitrary: n) auto

lemma foldl_insert_rpm_count:
  "foldl insert_rpm (tbl, c) rows =
     (fst (foldl insert_rpm (tbl, 0) rows), c + snd (foldl insert_rpm (tbl, 0) rows))"
proof (induction rows arbitrary: tbl c)
  case Nil
  show ?case by simp
next
  case (Cons r rows)
  show ?case
  proof (cases "rpm_Checksum r \<in> rpm_Checksum ` set tbl")
    case True
    then show ?thesis using Cons.IH [of tbl c] by (simp add: insert_rpm_def)
  next
    case False
    then show ?thesis
      using Cons.IH [of "tbl @ [r]" "c + 1"] Cons.IH [of "tbl @ [r]" 1]
      by (simp add: insert_rpm_def)
  qed
qed

lemma insert_rpms_Nil: "insert_rpms src k tbl [] = (tbl, 0)"
  by (simp add: insert_rpms_def)

lemma insert_rpms_append:
  "insert_rpms src k tbl (xs @ ys) =
     (fst (insert_rpms src (k + length xs) (fst (insert_rpms src k tbl xs)) ys),
      snd (insert_rpms src k tbl xs) + snd (insert_rpms src (k + length xs) (fst (insert_rpms src k tbl xs)) ys))"
proof -
  obtain t c where tc: "foldl insert_rpm (tbl, 0) (stamp src k xs) = (t, c)"
    by (cases "foldl insert_rpm (tbl, 0) (stamp src k xs)")
  show ?thesis
    using foldl_insert_rpm_count [of t c "stamp src (k + length xs) ys"]
    by (simp add: insert_rpms_def stamp_append tc)
qed

lemma create_rpms_healthy:
  "faults d = [] \<Longrightarrow> rows \<noteq> [] \<Longrightarrow>
   create_rpms rows d =
     (d\<lparr>rpms := fst (insert_rpms (uuid_source d) (uuids_drawn d) (rpms d) rows),
        uuids_drawn := uuids_drawn d + length rows,
        statements := Suc (statements d)\<rparr>,
      Inr (snd (insert_rpms (uuid_source d) (uuids_drawn d) (rpms d) rows)))"
  by (simp add: create_rpms_def send_def Let_def)

lemma slice_chunk:
  assumes "0 < chunk" "0 \<le> i" "i < int (length pkgs)"
  shows "\<exists>rows. slice pkgs i (if i + chunk > int (length pkgs) then int (length pkgs) else i + chunk) = Returns rows
           \<and> rows \<noteq> [] \<and> drop (nat i) pkgs = rows @ drop (nat (i + chunk)) pkgs"
proof (cases "i + chunk > int (length pkgs)")
  case True
  with assms show ?thesis by (simp add: slice_def)
next
  case False
  have n: "nat (i + chunk) = nat chunk + nat i" using assms by (simp add: nat_add_distrib)
  have e: "nat (i + chunk - i) = nat chunk" by simp
  have ne: "take (nat chunk) (drop (nat i) pkgs) \<noteq> []" using assms by simp
  have sl: "slice pkgs i (i + chunk) = Returns (take (nat chunk) (drop (nat i) pkgs))"
    using False assms unfolding slice_def e by simp
  have "drop (nat i) pkgs = take (nat chunk) (drop (nat i) pkgs) @ drop (nat (i + chunk)) pkgs"
    unfolding n by (simp only: drop_drop [symmetric] append_take_drop_id)
  with False sl ne show ?thesis by simp
qed

lemma paged_loop_healthy:
  assumes "0 < chunk" "faults d = []" "0 \<le> i"
  shows "\<exists>s. paged_loop chunk pkgs i count d =
     Some (Returns (d\<lparr>rpms := fst (insert_rpms (uuid_source d) (uuids_drawn d) (rpms d) (drop (nat i) pkgs)),
                       uuids_drawn := uuids_drawn d + length (drop (nat i) pkgs),
                       statements := s\<rparr>,
                    count + snd (insert_rpms (uuid_source d) (uuids_drawn d) (rpms d) (drop (nat i) pkgs)),
                    None))"
  using assms
proof (induction "length pkgs - nat i" arbitrary: i count d rule: less_induct)
  case less
  show ?case
  proof (cases "i < int (length pkgs)")
    case False
    then have "drop (nat i) pkgs = []" by simp
    then show ?thesis using False
      by (subst paged_loop.simps) (auto simp: insert_rpms_Nil intro!: exI [of _ "statements d"])
  next
    case True
    from slice_chunk [OF less.prems(1) less.prems(3) True]
    obtain rows where rows:
      "slice pkgs i (if i + chunk > int (length pkgs) then int (length pkgs) else i + chunk) = Returns rows"
      "rows \<noteq> []" "drop (nat i) pkgs = rows @ drop (nat (i + chunk)) pkgs"
      by blast
    let ?R = "insert_rpms (uuid_source d) (uuids_drawn d) (rpms d) rows"
    let ?d' = "d\<lparr>rpms := fst ?R, uuids_drawn := uuids_drawn d + length rows,
                  statements := Suc (statements d)\<rparr>"
    have cr: "create_rpms rows d = (?d', Inr (snd ?R))"
      using create_rpms_healthy [OF less.prems(2) rows(2)] .
    have m: "length pkgs - nat (i + chunk) < length pkgs - nat i"
      using True less.prems by linarith
    have h': "faults ?d' = []" using less.prems(2) by simp
    have nn: "0 \<le> i + chunk" using less.prems by simp
    from less.hyps [OF m less.prems(1) h' nn, of "count + snd ?R"]
    obtain s where ih: "paged_loop chunk pkgs (i + chunk) (count + snd ?R) ?d' =
       Some (Returns (?d'\<lparr>rpms := fst (insert_rpms (uuid_source ?d') (uuids_drawn ?d') (rpms ?d') (drop (nat (i + chunk)) pkgs)),
                       uuids_drawn := uuids_drawn ?d' + length (drop (nat (i + chunk)) pkgs),
                       statements := s\<rparr>,
                    count + snd ?R + snd (insert_rpms (uuid_source ?d') (uuids_drawn ?d') (rpms ?d') (drop (nat (i + chunk)) pkgs)),
                    None))"
      by blast
    have unf: "paged_loop chunk pkgs i count d = paged_loop chunk pkgs (i + chunk) (count + snd ?R) ?d'"
      by (subst paged_loop.simps) (simp only: True rows(1) cr if_True outcome.case prod.case sum.case)
    show ?thesis
      unfolding unf ih rows(3) insert_rpms_append
      by (intro exI [of _ s]) (simp add: add.assoc)
  qed
qed

lemma paged_loop_returns:
  assumes "0 < chunk" "0 \<le> i"
  shows "\<exists>res. paged_loop chunk pkgs i count d = Some (Returns res)"
  using assms
proof (induction "length pkgs - nat i" arbitrary: i count d rule: less_induct)
  case less
  show ?case
  proof (cases "i < int (length pkgs)")
    case False
    then show ?thesis by (subst paged_loop.simps) simp
  next
    case True
    from slice_chunk [OF less.prems(1) less.prems(2) True]
    obtain rows where rows:
      "slice pkgs i (if i + chunk > int (length pkgs) then int (length pkgs) else i + chunk) = Returns rows"
      by blast
    have m: "length pkgs - nat (i + chunk) < length pkgs - nat i"
      using True less.prems by linarith
    have nn: "0 \<le> i + chunk" using less.prems by simp
    obtain d' x where cr: "create_rpms rows d = (d', x)"
      by (cases "create_rpms rows d")
    show ?thesis
    proof (cases x)
      case (Inl e)
      show ?thesis
        by (subst paged_loop.simps)
          (simp only: True rows cr Inl if_True outcome.case prod.case sum.case, simp)
    next
      case (Inr n)
      have "paged_loop chunk pkgs i count d = paged_loop chunk pkgs (i + chunk) (count + n) d'"
        by (subst paged_loop.simps)
          (simp only: True rows cr Inr if_True outcome.case prod.case sum.case)
      then show ?thesis using less.hyps [OF m less.prems(1) nn] by simp
    qed
  qed
qed

lemma rpm_Checksum_stamp: "map rpm_Checksum (stamp src k rows) = map rpm_Checksum rows"
  by (induction rows arbitrary: k) auto

lemma foldl_insert_rpm_distinct:
  "distinct (map rpm_Checksum rows) \<Longrightarrow>
   snd (foldl insert_rpm (tbl, c) rows) =
     c + int (length (filter (\<lambda>p. rpm_Checksum p \<notin> rpm_Checksum ` set tbl) rows))"
proof (induction rows arbitrary: tbl c)
  case Nil
  show ?case by simp
next
  case (Cons r rows)
  from Cons.prems have d: "distinct (map rpm_Checksum rows)" and
    nr: "rpm_Checksum r \<notin> rpm_Checksum ` set rows" by auto
  show ?case
  proof (cases "rpm_Checksum r \<in> rpm_Checksum ` set tbl")
    case True
    then show ?thesis using Cons.IH [OF d, of tbl c] by (simp add: insert_rpm_def)
  next
    case False
    have ne: "\<And>x. x \<in> set rows \<Longrightarrow> rpm_Checksum x \<noteq> rpm_Checksum r"
      using nr by (metis imageI)
    have "filter (\<lambda>p. rpm_Checksum p \<notin> rpm_Checksum ` set (tbl @ [r])) rows =
          filter (\<lambda>p. rpm_Checksum p \<notin> rpm_Checksum ` set tbl) rows"
      by (rule filter_cong [OF refl]) (simp add: ne)
    then show ?thesis using False Cons.IH [OF d, of "tbl @ [r]" "c + 1"]
      by (simp add: insert_rpm_def)
  qed
qed

lemma filter_stamp_length:
  "length (filter (\<lambda>p. P (rpm_Checksum p)) (stamp src k rows)) =
   length (filter (\<lambda>p. P (rpm_Checksum p)) rows)"
  by (induction rows arbitrary: k) auto

lemma insert_rpms_distinct:
  assumes "distinct (map rpm_Checksum rows)"
  shows "snd (insert_rpms src k tbl rows) =
     int (length rows) - int (length (filter (\<lambda>p. rpm_Checksum p \<in> rpm_Checksum ` set tbl) rows))"
proof -
  have "distinct (map rpm_Checksum (stamp src k rows))"
    using assms by (simp add: rpm_Checksum_stamp)
  from foldl_insert_rpm_distinct [OF this, of tbl 0]
  have "snd (insert_rpms src k tbl rows) =
          int (length (filter (\<lambda>p. rpm_Checksum p \<notin> rpm_Checksum ` set tbl) rows))"
    by (simp add: insert_rpms_def filter_stamp_length [of "\<lambda>c. c \<notin> rpm_Checksum ` set tbl"])
  moreover have "length rows = length (filter (\<lambda>p. rpm_Checksum p \<in> rpm_Checksum ` set tbl) rows)
      + length (filter (\<lambda>p. rpm_Checksum p \<notin> rpm_Checksum ` set tbl) rows)"
    using sum_length_filter_compl [of "\<lambda>p. rpm_Checksum p \<in> rpm_Checksum ` set tbl" rows] by simp
  ultimately show ?thesis by linarith
qed

lemma PagedRpmInsert_healthy:
  assumes "0 < pagedRpmInsertsLimit r" "faults d = []"
  shows "\<exists>s. PagedRpmInsert r pkgs d =
     Some (Returns (d\<lparr>rpms := fst (insert_rpms (uuid_source d) (uuids_drawn d) (rpms d) pkgs),
                       uuids_drawn := uuids_drawn d + length pkgs,
                       statements := s\<rparr>,
                    snd (insert_rpms (uuid_source d) (uuids_drawn d) (rpms d) pkgs),
                    None))"
proof (cases "pkgs = []")
  case True
  then show ?thesis
    by (auto simp: PagedRpmInsert_def insert_rpms_Nil intro!: exI [of _ "statements d"])
next
  case False
  with paged_loop_healthy [OF assms, of 0 pkgs 0] show ?thesis
    by (simp add: PagedRpmInsert_def)
qed

section \<open>Chunked insertion when a statement fails\<close>




section \<open>Removing stale associations and orphans\<close>

lemma query_healthy:
  "faults d = [] \<Longrightarrow>
   query f d = (d\<lparr>statements := Suc (statements d)\<rparr>, Inr (f (d\<lparr>statements := Suc (statements d)\<rparr>)))"
  by (simp add: query_def send_healthy)

lemma filter_not_plucked:
  "filter (\<lambda>r. f r \<notin> set (map f (filter (\<lambda>r. Q (f r)) xs))) xs = filter (\<lambda>r. \<not> Q (f r)) xs"
proof (rule filter_cong [OF refl])
  fix x assume "x \<in> set xs"
  then show "(f x \<notin> set (map f (filter (\<lambda>r. Q (f r)) xs))) = (\<not> Q (f x))"
    by (auto simp: image_iff)
qed

lemma deleteUnneeded_healthy:
  fixes repo :: Repository and us :: "string list" and d :: db
  defines "del \<equiv> difference (map rr_RpmUUID (filter (\<lambda>m. rr_RepositoryUUID m = repo_UUID repo)
                                   (repositories_rpms d))) us"
  defines "kept \<equiv> filter (\<lambda>m. \<not> (rr_RepositoryUUID m = repo_UUID repo \<and> rr_RpmUUID m \<in> set del))
                      (repositories_rpms d)"
  assumes "faults d = []"
  shows "\<exists>s. deleteUnneeded repo us d =
     (d\<lparr>rpms := filter (\<lambda>r. \<not> (rpm_UUID r \<in> set del \<and> rpm_UUID r \<notin> rr_RpmUUID ` set kept)) (rpms d),
        repositories_rpms := kept, statements := s\<rparr>, None)"
proof -
  let ?Q = "\<lambda>u. u \<in> set del \<and> u \<notin> rr_RpmUUID ` set kept"
  let ?dang = "map rpm_UUID (filter (\<lambda>r. ?Q (rpm_UUID r)) (rpms d))"
  let ?ex = "map rr_RpmUUID (filter (\<lambda>m. rr_RepositoryUUID m = repo_UUID repo) (repositories_rpms d))"
  let ?d1 = "d\<lparr>statements := Suc (statements d)\<rparr>"
  let ?d2 = "d\<lparr>repositories_rpms := kept, statements := Suc (Suc (statements d))\<rparr>"
  let ?d3 = "d\<lparr>repositories_rpms := kept, statements := Suc (Suc (Suc (statements d)))\<rparr>"
  let ?d4 = "d\<lparr>rpms := filter (\<lambda>r. \<not> ?Q (rpm_UUID r)) (rpms d), repositories_rpms := kept,
               statements := Suc (Suc (Suc (Suc (statements d))))\<rparr>"
  have flt: "filter (\<lambda>r. rpm_UUID r \<notin> set ?dang) (rpms d) = filter (\<lambda>r. \<not> ?Q (rpm_UUID r)) (rpms d)"
    by (rule filter_not_plucked)
  have s1: "pluck_repo_rpm_uuids (repo_UUID repo) d = (?d1, Inr ?ex)"
    using assms(3) by (simp add: pluck_repo_rpm_uuids_def query_healthy)
  have s2: "delete_repository_rpms (repo_UUID repo) del ?d1 = (?d2, None)"
    using assms(3) by (simp add: delete_repository_rpms_def send_healthy kept_def)
  have s3: "pluck_dangling del ?d2 = (?d3, Inr ?dang)"
    using assms(3) by (simp add: pluck_dangling_def query_healthy)
  have s4: "delete_rpms ?dang ?d3 = (?d4, None)"
    using assms(3) unfolding flt [symmetric] by (simp add: delete_rpms_def send_healthy)
  have unf: "deleteUnneeded repo us d = (if length ?dang = 0 then (?d3, None) else (?d4, None))"
    unfolding deleteUnneeded_def
    by (simp only: s1 prod.case sum.case Let_def del_def [symmetric] s2 option.case s3 s4)
  show ?thesis
  proof (cases "?dang = []")
    case True
    then have "filter (\<lambda>r. \<not> ?Q (rpm_UUID r)) (rpms d) = rpms d"
      unfolding flt [symmetric] by simp
    then have eq: "?d3 = d\<lparr>rpms := filter (\<lambda>r. \<not> ?Q (rpm_UUID r)) (rpms d), repositories_rpms := kept,
               statements := Suc (Suc (Suc (statements d)))\<rparr>"
      by simp
    from True have "deleteUnneeded repo us d = (?d3, None)" unfolding unf by simp
    then have "deleteUnneeded repo us d =
        (d\<lparr>rpms := filter (\<lambda>r. \<not> ?Q (rpm_UUID r)) (rpms d), repositories_rpms := kept,
               statements := Suc (Suc (Suc (statements d)))\<rparr>, None)"
      by (simp only: eq)
    then show ?thesis by blast
  next
    case False
    then have "deleteUnneeded repo us d = (?d4, None)" unfolding unf by simp
    then show ?thesis by blast
  qed
qed

section \<open>The steps of a reconciliation on a store that answers\<close>

lemma contents_eq_iff:
  "contents a = contents b \<longleftrightarrow>
     rpms a = rpms b \<and> repositories a = repositories b
     \<and> repository_configurations a = repository_configurations b
     \<and> repositories_rpms a = repositories_rpms b"
  by (simp add: contents_def)

lemma stringInSlice_iff: "stringInSlice a list \<longleftrightarrow> a \<in> set list"
  by (induction list) auto

lemma FilteredConvert_checksums:
  "map rpm_Checksum (FilteredConvert pkgs ex) = filter (\<lambda>c. c \<notin> set ex) (map yum_Checksum pkgs)"
  by (induction pkgs) (auto simp: stringInSlice_iff)

lemma foldl_insert_rpm_checksums:
  "rpm_Checksum ` set (fst (foldl insert_rpm (tbl, c) rows)) = rpm_Checksum ` set tbl \<union> rpm_Checksum ` set rows"
proof (induction rows arbitrary: tbl c)
  case Nil
  show ?case by simp
next
  case (Cons r rows)
  show ?case
  proof (cases "rpm_Checksum r \<in> rpm_Checksum ` set tbl")
    case True
    then show ?thesis using Cons.IH [of tbl c] by (auto simp: insert_rpm_def)
  next
    case False
    then show ?thesis using Cons.IH [of "tbl @ [r]" "c + 1"] by (auto simp: insert_rpm_def)
  qed
qed

lemma insert_rpms_checksums:
  "rpm_Checksum ` set (fst (insert_rpms src k tbl rows)) = rpm_Checksum ` set tbl \<union> rpm_Checksum ` set rows"
proof -
  have "rpm_Checksum ` set (stamp src k rows) = rpm_Checksum ` set rows"
    using rpm_Checksum_stamp [of src k rows] by (metis set_map)
  then show ?thesis by (simp add: insert_rpms_def foldl_insert_rpm_checksums)
qed

lemma foldl_insert_repository_rpm_set:
  "set (foldl insert_repository_rpm tbl rows) = set tbl \<union> set rows"
  by (induction rows arbitrary: tbl) (auto simp: insert_repository_rpm_def)

lemma foldl_insert_repository_rpm_present:
  "set rows \<subseteq> set tbl \<Longrightarrow> foldl insert_repository_rpm tbl rows = tbl"
  by (induction rows arbitrary: tbl) (auto simp: insert_repository_rpm_def)

lemma fetchRepo_found:
  "faults d = [] \<Longrightarrow> filter (\<lambda>p. repo_UUID p = u) (repositories d) = repo # rest \<Longrightarrow>
   \<exists>d'. fetchRepo u d = (d', Inr repo) \<and> contents d' = contents d \<and> faults d' = []"
  by (simp add: fetchRepo_def first_repository_def send_healthy contents_def)

lemma fetchRepo_not_found:
  "faults d = [] \<Longrightarrow> filter (\<lambda>p. repo_UUID p = u) (repositories d) = [] \<Longrightarrow>
   \<exists>d'. fetchRepo u d = (d', Inl ErrRecordNotFound) \<and> contents d' = contents d \<and> faults d' = []"
  by (simp add: fetchRepo_def first_repository_def send_healthy contents_def)

lemma pluck_checksums_healthy:
  "faults d = [] \<Longrightarrow>
   \<exists>d'. pluck_checksums cs d =
           (d', Inr (map rpm_Checksum (filter (\<lambda>r. rpm_Checksum r \<in> set cs) (rpms d))))
       \<and> contents d' = contents d \<and> faults d' = []"
  by (simp add: pluck_checksums_def query_healthy contents_def)

lemma pluck_uuids_healthy:
  "faults d = [] \<Longrightarrow>
   \<exists>d'. pluck_uuids cs d =
           (d', Inr (map rpm_UUID (filter (\<lambda>r. rpm_Checksum r \<in> set cs) (rpms d))))
       \<and> contents d' = contents d \<and> faults d' = []"
  by (simp add: pluck_uuids_def query_healthy contents_def)

lemma PagedRpmInsert_frame:
  assumes "0 < pagedRpmInsertsLimit r" "faults d = []"
  shows "\<exists>d' n. PagedRpmInsert r pkgs d = Some (Returns (d', n, None))
          \<and> faults d' = []
          \<and> rpm_Checksum ` set (rpms d') = rpm_Checksum ` set (rpms d) \<union> rpm_Checksum ` set pkgs
          \<and> repositories d' = repositories d
          \<and> repository_configurations d' = repository_configurations d
          \<and> repositories_rpms d' = repositories_rpms d"
proof -
  from PagedRpmInsert_healthy [OF assms, of pkgs] obtain s where
    "PagedRpmInsert r pkgs d =
     Some (Returns (d\<lparr>rpms := fst (insert_rpms (uuid_source d) (uuids_drawn d) (rpms d) pkgs),
                       uuids_drawn := uuids_drawn d + length pkgs,
                       statements := s\<rparr>,
                    snd (insert_rpms (uuid_source d) (uuids_drawn d) (rpms d) pkgs),
                    None))"
    by blast
  then show ?thesis using assms(2) by (simp add: insert_rpms_checksums)
qed

lemma create_repository_rpms_healthy:
  "faults d = [] \<Longrightarrow>
   \<exists>d' e. create_repository_rpms rows d = (d', e) \<and> faults d' = []
     \<and> rpms d' = rpms d \<and> repositories d' = repositories d
     \<and> repository_configurations d' = repository_configurations d
     \<and> repositories_rpms d' =
         (if rows = [] then repositories_rpms d else foldl insert_repository_rpm (repositories_rpms d) rows)"
  by (simp add: create_repository_rpms_def send_healthy)

lemma deleteUnneeded_frame:
  assumes "faults d = []"
  shows "\<exists>d' del.
      deleteUnneeded repo us d = (d', None) \<and> faults d' = []
    \<and> set del = rr_RpmUUID ` {m \<in> set (repositories_rpms d). rr_RepositoryUUID m = repo_UUID repo} - set us
    \<and> repositories d' = repositories d
    \<and> repository_configurations d' = repository_configurations d
    \<and> repositories_rpms d' =
        filter (\<lambda>m. \<not> (rr_RepositoryUUID m = repo_UUID repo \<and> rr_RpmUUID m \<in> set del)) (repositories_rpms d)
    \<and> rpms d' =
        filter (\<lambda>r. \<not> (rpm_UUID r \<in> set del \<and> rpm_UUID r \<notin> rr_RpmUUID ` set (repositories_rpms d'))) (rpms d)"
proof -
  define del where "del = difference (map rr_RpmUUID (filter (\<lambda>m. rr_RepositoryUUID m = repo_UUID repo)
                                   (repositories_rpms d))) us"
  define kept where "kept = filter (\<lambda>m. \<not> (rr_RepositoryUUID m = repo_UUID repo \<and> rr_RpmUUID m \<in> set del))
                      (repositories_rpms d)"
  from deleteUnneeded_healthy [OF assms, of repo us]
  obtain s where run: "deleteUnneeded repo us d =
     (d\<lparr>rpms := filter (\<lambda>r. \<not> (rpm_UUID r \<in> set del \<and> rpm_UUID r \<notin> rr_RpmUUID ` set kept)) (rpms d),
        repositories_rpms := kept, statements := s\<rparr>, None)"
    unfolding del_def kept_def by blast
  have sd: "set del = rr_RpmUUID ` {m \<in> set (repositories_rpms d). rr_RepositoryUUID m = repo_UUID repo} - set us"
    by (auto simp: del_def difference_def)
  let ?d' = "d\<lparr>rpms := filter (\<lambda>r. \<not> (rpm_UUID r \<in> set del \<and> rpm_UUID r \<notin> rr_RpmUUID ` set kept)) (rpms d),
        repositories_rpms := kept, statements := s\<rparr>"
  have "deleteUnneeded repo us d = (?d', None) \<and> faults ?d' = []
    \<and> set del = rr_RpmUUID ` {m \<in> set (repositories_rpms d). rr_RepositoryUUID m = repo_UUID repo} - set us
    \<and> repositories ?d' = repositories d
    \<and> repository_configurations ?d' = repository_configurations d
    \<and> repositories_rpms ?d' =
        filter (\<lambda>m. \<not> (rr_RepositoryUUID m = repo_UUID repo \<and> rr_RpmUUID m \<in> set del)) (repositories_rpms d)
    \<and> rpms ?d' =
        filter (\<lambda>r. \<not> (rpm_UUID r \<in> set del \<and> rpm_UUID r \<notin> rr_RpmUUID ` set (repositories_rpms ?d'))) (rpms d)"
    using run assms sd by (simp add: kept_def)
  then show ?thesis by blast
qed

lemma filter_filter_absorb:
  "(\<And>x. x \<in> set xs \<Longrightarrow> P x \<Longrightarrow> Q x) \<Longrightarrow> filter P (filter Q xs) = filter P xs"
  by (induction xs) auto

lemma InsertForRepository_first_run:
  assumes "0 < pagedRpmInsertsLimit r" "faults d = []"
    and found: "filter (\<lambda>p. repo_UUID p = u) (repositories d) = repo # rest"
  shows "\<exists>d' n e. InsertForRepository r u pkgs d = Some (Returns (d', n, e))
      \<and> faults d' = [] \<and> repositories d' = repositories d
      \<and> reconciled u (map yum_Checksum pkgs) d'"
proof -
  let ?cs = "map yum_Checksum pkgs"
  have ru: "repo_UUID repo = u"
  proof -
    have "repo \<in> set (filter (\<lambda>p. repo_UUID p = u) (repositories d))" unfolding found by simp
    then show ?thesis by simp
  qed
  from fetchRepo_found [OF assms(2) found]
  obtain d1 where 1: "fetchRepo u d = (d1, Inr repo)" "contents d1 = contents d" "faults d1 = []"
    by blast
  let ?ex = "map rpm_Checksum (filter (\<lambda>r. rpm_Checksum r \<in> set ?cs) (rpms d1))"
  from pluck_checksums_healthy [OF 1(3), of ?cs]
  obtain d2 where 2: "pluck_checksums ?cs d1 = (d2, Inr ?ex)" "contents d2 = contents d1" "faults d2 = []"
    by blast
  from PagedRpmInsert_frame [OF assms(1) 2(3), of "FilteredConvert pkgs ?ex"]
  obtain d3 n where 3: "PagedRpmInsert r (FilteredConvert pkgs ?ex) d2 = Some (Returns (d3, n, None))"
    "faults d3 = []"
    "rpm_Checksum ` set (rpms d3) = rpm_Checksum ` set (rpms d2) \<union> rpm_Checksum ` set (FilteredConvert pkgs ?ex)"
    "repositories d3 = repositories d2"
    "repository_configurations d3 = repository_configurations d2"
    "repositories_rpms d3 = repositories_rpms d2"
    by blast
  have r12: "rpms d2 = rpms d1" using 2(2) by (simp add: contents_eq_iff)
  have "rpm_Checksum ` set (FilteredConvert pkgs ?ex) = set (filter (\<lambda>c. c \<notin> set ?ex) ?cs)"
    using FilteredConvert_checksums [of pkgs ?ex] by (metis set_map)
  then have all3: "set ?cs \<subseteq> rpm_Checksum ` set (rpms d3)"
    unfolding 3(3) r12 by auto
  let ?us = "map rpm_UUID (filter (\<lambda>r. rpm_Checksum r \<in> set ?cs) (rpms d3))"
  from pluck_uuids_healthy [OF 3(2), of ?cs]
  obtain d4 where 4: "pluck_uuids ?cs d3 = (d4, Inr ?us)" "contents d4 = contents d3" "faults d4 = []"
    by blast
  have t4: "rpms d4 = rpms d3" "repositories d4 = repositories d3" "repositories_rpms d4 = repositories_rpms d3"
    using 4(2) by (simp_all add: contents_eq_iff)
  from deleteUnneeded_frame [OF 4(3), of repo ?us]
  obtain d5 del where 5: "deleteUnneeded repo ?us d4 = (d5, None)" "faults d5 = []"
    "set del = rr_RpmUUID ` {m \<in> set (repositories_rpms d4). rr_RepositoryUUID m = repo_UUID repo} - set ?us"
    "repositories d5 = repositories d4"
    "repositories_rpms d5 =
        filter (\<lambda>m. \<not> (rr_RepositoryUUID m = repo_UUID repo \<and> rr_RpmUUID m \<in> set del)) (repositories_rpms d4)"
    "rpms d5 =
        filter (\<lambda>r. \<not> (rpm_UUID r \<in> set del \<and> rpm_UUID r \<notin> rr_RpmUUID ` set (repositories_rpms d5))) (rpms d4)"
    by blast
  have wanted5: "filter (\<lambda>r. rpm_Checksum r \<in> set ?cs) (rpms d5) = filter (\<lambda>r. rpm_Checksum r \<in> set ?cs) (rpms d3)"
    unfolding 5(6) t4(1)
  proof (rule filter_filter_absorb)
    fix x assume "x \<in> set (rpms d3)" "rpm_Checksum x \<in> set ?cs"
    then have "rpm_UUID x \<in> set ?us" by auto
    then have "rpm_UUID x \<notin> set del" unfolding 5(3) by blast
    then show "\<not> (rpm_UUID x \<in> set del \<and> rpm_UUID x \<notin> rr_RpmUUID ` set (repositories_rpms d5))"
      by simp
  qed
  have all5: "set ?cs \<subseteq> rpm_Checksum ` set (rpms d5)"
  proof
    fix c assume c: "c \<in> set ?cs"
    with all3 obtain x where "x \<in> set (rpms d3)" "rpm_Checksum x = c" by auto
    with c have "x \<in> set (filter (\<lambda>r. rpm_Checksum r \<in> set ?cs) (rpms d3))" by simp
    then have "x \<in> set (rpms d5)" unfolding wanted5 [symmetric] by simp
    with \<open>rpm_Checksum x = c\<close> show "c \<in> rpm_Checksum ` set (rpms d5)" by blast
  qed
  have w5: "wanted_uuids ?cs d5 = ?us" by (simp only: wanted_uuids_def wanted5)
  have kept_sub: "rr_RpmUUID ` {m \<in> set (repositories_rpms d5). rr_RepositoryUUID m = u} \<subseteq> set ?us"
    unfolding 5(5) using 5(3) ru by auto
  from create_repository_rpms_healthy [OF 5(2), of "prepRepositoryRpms repo ?us"]
  obtain d6 e6 where 6: "create_repository_rpms (prepRepositoryRpms repo ?us) d5 = (d6, e6)"
    "faults d6 = []" "rpms d6 = rpms d5" "repositories d6 = repositories d5"
    "repositories_rpms d6 =
         (if prepRepositoryRpms repo ?us = [] then repositories_rpms d5
          else foldl insert_repository_rpm (repositories_rpms d5) (prepRepositoryRpms repo ?us))"
    by blast
  have w6: "wanted_uuids ?cs d6 = ?us" using w5 by (simp only: wanted_uuids_def 6(3))
  have m6: "rr_RpmUUID ` {m \<in> set (repositories_rpms d6). rr_RepositoryUUID m = u} = set ?us"
  proof (cases "?us = []")
    case True
    then show ?thesis using kept_sub 6(5) by (simp add: prepRepositoryRpms_def)
  next
    case False
    then have "set (repositories_rpms d6) = set (repositories_rpms d5) \<union> set (prepRepositoryRpms repo ?us)"
      using 6(5) by (simp add: prepRepositoryRpms_def foldl_insert_repository_rpm_set)
    moreover have "rr_RpmUUID ` {m \<in> set (prepRepositoryRpms repo ?us). rr_RepositoryUUID m = u} = set ?us"
      using ru by (force simp: prepRepositoryRpms_def)
    ultimately show ?thesis using kept_sub by blast
  qed
  have rec: "reconciled u ?cs d6"
    unfolding reconciled_def w6 using all5 m6 6(3) by simp
  have repos: "repositories d6 = repositories d"
    using 6(4) 5(4) t4(2) 3(4) 2(2) 1(2) by (simp add: contents_eq_iff)
  have run: "InsertForRepository r u pkgs d =
      Some (Returns (d6, n, case e6 of None \<Rightarrow> None | Some e \<Rightarrow> Some (Wrapf ''failed to Create: '' e)))"
    unfolding InsertForRepository_def
    by (simp only: 1(1) 2(1) 3(1) 4(1) 5(1) 6(1) Let_def prod.case sum.case option.case outcome.case)
      (simp split: option.split)
  show ?thesis unfolding run using 6(2) repos rec by blast
qed

lemma InsertForRepository_again:
  assumes "faults d = []"
    and found: "filter (\<lambda>p. repo_UUID p = u) (repositories d) = repo # rest"
    and rec: "reconciled u (map yum_Checksum pkgs) d"
  shows "\<exists>d' e. InsertForRepository r u pkgs d = Some (Returns (d', 0, e))
      \<and> contents d' = contents d"
proof -
  let ?cs = "map yum_Checksum pkgs"
  have ru: "repo_UUID repo = u"
  proof -
    have "repo \<in> set (filter (\<lambda>p. repo_UUID p = u) (repositories d))" unfolding found by simp
    then show ?thesis by simp
  qed
  from rec have all: "set ?cs \<subseteq> rpm_Checksum ` set (rpms d)"
    and mem: "rr_RpmUUID ` {m \<in> set (repositories_rpms d). rr_RepositoryUUID m = u} = set (wanted_uuids ?cs d)"
    by (simp_all only: reconciled_def)
  from fetchRepo_found [OF assms(1) found]
  obtain d1 where 1: "fetchRepo u d = (d1, Inr repo)" "contents d1 = contents d" "faults d1 = []"
    by blast
  have t1: "rpms d1 = rpms d" "repositories_rpms d1 = repositories_rpms d"
    using 1(2) by (simp_all add: contents_eq_iff)
  let ?ex = "map rpm_Checksum (filter (\<lambda>r. rpm_Checksum r \<in> set ?cs) (rpms d1))"
  from pluck_checksums_healthy [OF 1(3), of ?cs]
  obtain d2 where 2: "pluck_checksums ?cs d1 = (d2, Inr ?ex)" "contents d2 = contents d1" "faults d2 = []"
    by blast
  have t2: "rpms d2 = rpms d" "repositories_rpms d2 = repositories_rpms d"
    using 2(2) t1 by (simp_all add: contents_eq_iff)
  have "set ?cs \<subseteq> set ?ex"
  proof
    fix c assume c: "c \<in> set ?cs"
    with all obtain x where "x \<in> set (rpms d)" "rpm_Checksum x = c" by auto
    with c show "c \<in> set ?ex" unfolding t1 by force
  qed
  then have "filter (\<lambda>c. c \<notin> set ?ex) ?cs = []" by (auto simp: filter_empty_conv)
  then have "map rpm_Checksum (FilteredConvert pkgs ?ex) = []"
    by (simp only: FilteredConvert_checksums)
  then have none: "FilteredConvert pkgs ?ex = []" by simp
  have 3: "PagedRpmInsert r (FilteredConvert pkgs ?ex) d2 = Some (Returns (d2, 0, None))"
    unfolding none by (simp add: PagedRpmInsert_def)
  let ?us = "map rpm_UUID (filter (\<lambda>r. rpm_Checksum r \<in> set ?cs) (rpms d2))"
  have us: "?us = wanted_uuids ?cs d" by (simp only: wanted_uuids_def t2)
  from pluck_uuids_healthy [OF 2(3), of ?cs]
  obtain d4 where 4: "pluck_uuids ?cs d2 = (d4, Inr ?us)" "contents d4 = contents d2" "faults d4 = []"
    by blast
  have t4: "rpms d4 = rpms d" "repositories_rpms d4 = repositories_rpms d"
    using 4(2) t2 by (simp_all add: contents_eq_iff)
  from deleteUnneeded_frame [OF 4(3), of repo ?us]
  obtain d5 del where 5: "deleteUnneeded repo ?us d4 = (d5, None)" "faults d5 = []"
    "set del = rr_RpmUUID ` {m \<in> set (repositories_rpms d4). rr_RepositoryUUID m = repo_UUID repo} - set ?us"
    "repositories d5 = repositories d4"
    "repository_configurations d5 = repository_configurations d4"
    "repositories_rpms d5 =
        filter (\<lambda>m. \<not> (rr_RepositoryUUID m = repo_UUID repo \<and> rr_RpmUUID m \<in> set del)) (repositories_rpms d4)"
    "rpms d5 =
        filter (\<lambda>r. \<not> (rpm_UUID r \<in> set del \<and> rpm_UUID r \<notin> rr_RpmUUID ` set (repositories_rpms d5))) (rpms d4)"
    by blast
  have "set del = {}" unfolding 5(3) t4 ru mem us by simp
  then have del: "\<And>x. x \<notin> set del" by simp
  have m5: "repositories_rpms d5 = repositories_rpms d" unfolding 5(6) t4 by (simp add: del)
  have r5: "rpms d5 = rpms d" unfolding 5(7) t4 by (simp add: del)
  have c5: "contents d5 = contents d"
    using m5 r5 5(4) 5(5) 4(2) 2(2) 1(2) by (simp add: contents_eq_iff)
  have present: "set (prepRepositoryRpms repo ?us) \<subseteq> set (repositories_rpms d5)"
  proof
    fix m assume "m \<in> set (prepRepositoryRpms repo ?us)"
    then obtain x where x: "x \<in> set ?us" "m = \<lparr>rr_RepositoryUUID = u, rr_RpmUUID = x\<rparr>"
      using ru by (auto simp: prepRepositoryRpms_def)
    from x(1) have "x \<in> rr_RpmUUID ` {m \<in> set (repositories_rpms d). rr_RepositoryUUID m = u}"
      unfolding mem us .
    then obtain m' where "m' \<in> set (repositories_rpms d)" "rr_RepositoryUUID m' = u" "rr_RpmUUID m' = x"
      by auto
    then have "m' = m" using x(2) by simp
    with \<open>m' \<in> set (repositories_rpms d)\<close> show "m \<in> set (repositories_rpms d5)" unfolding m5 by simp
  qed
  from create_repository_rpms_healthy [OF 5(2), of "prepRepositoryRpms repo ?us"]
  obtain d6 e6 where 6: "create_repository_rpms (prepRepositoryRpms repo ?us) d5 = (d6, e6)"
    "rpms d6 = rpms d5" "repositories d6 = repositories d5"
    "repository_configurations d6 = repository_configurations d5"
    "repositories_rpms d6 =
         (if prepRepositoryRpms repo ?us = [] then repositories_rpms d5
          else foldl insert_repository_rpm (repositories_rpms d5) (prepRepositoryRpms repo ?us))"
    by blast
  have "repositories_rpms d6 = repositories_rpms d5"
    unfolding 6(5) using foldl_insert_repository_rpm_present [OF present] by simp
  then have c6: "contents d6 = contents d"
    using 6(2) 6(3) 6(4) c5 by (simp add: contents_eq_iff)
  have run: "InsertForRepository r u pkgs d =
      Some (Returns (d6, 0, case e6 of None \<Rightarrow> None | Some e \<Rightarrow> Some (Wrapf ''failed to Create: '' e)))"
    unfolding InsertForRepository_def
    by (simp only: 1(1) 2(1) 3 4(1) 5(1) 6(1) Let_def prod.case sum.case option.case outcome.case)
      (simp split: option.split)
  show ?thesis unfolding run using c6 by blast
qed

lemma InsertForRepository_unknown:
  assumes "faults d = []" and "filter (\<lambda>p. repo_UUID p = u) (repositories d) = []"
  shows "\<exists>d'. InsertForRepository r u pkgs d =
            Some (Returns (d', 0, Some (Wrapf ''failed to fetchRepo: '' ErrRecordNotFound)))
      \<and> contents d' = contents d \<and> faults d' = []"
proof -
  from fetchRepo_not_found [OF assms]
  obtain d1 where 1: "fetchRepo u d = (d1, Inl ErrRecordNotFound)" "contents d1 = contents d" "faults d1 = []"
    by blast
  have "InsertForRepository r u pkgs d =
            Some (Returns (d1, 0, Some (Wrapf ''failed to fetchRepo: '' ErrRecordNotFound)))"
    unfolding InsertForRepository_def by (simp only: 1(1) prod.case sum.case)
  with 1 show ?thesis by blast
qed

section \<open>Queries\<close>

lemma isOwnedRepository_not_owned:
  assumes "filter (\<lambda>c. cfg_OrgID c = orgID \<and> cfg_UUID c = u) (repository_configurations d) = []"
  shows "\<exists>d' e. isOwnedRepository orgID u d = (d', False, e) \<and> (faults d = [] \<longrightarrow> e = None)
            \<and> contents d' = contents d"
proof (cases "faults d")
  case Nil
  then show ?thesis using assms
    by (simp add: isOwnedRepository_def query_def send_def Let_def contents_def)
next
  case (Cons f fs)
  show ?thesis
  proof (cases f)
    case (Some e)
    then show ?thesis using Cons assms
      by (simp add: isOwnedRepository_def query_def send_def Let_def contents_def)
  next
    case None
    show ?thesis
    proof (cases fs)
      case Nil
      then show ?thesis using Cons None assms
        by (simp add: isOwnedRepository_def query_def send_def Let_def contents_def)
    next
      case (Cons g gs)
      then show ?thesis using \<open>faults d = f # fs\<close> None assms
        by (cases g) (simp_all add: isOwnedRepository_def query_def send_def Let_def contents_def)
    qed
  qed
qed

lemma distinct_on_keys: "f ` set (distinct_on f xs) = f ` set xs"
  by (induction f xs rule: distinct_on.induct) auto

lemma search_urls_set: "set (search_urls urls) = set urls \<union> (\<lambda>u. u @ ''/'') ` set urls"
  by (induction urls) auto

lemma left_join_candidates:
  assumes "repo_Public p \<or> (\<exists>c \<in> set cfgs. cfg_RepositoryUUID c = repo_UUID p \<and> cfg_OrgID c = orgID)"
  shows "\<exists>c \<in> set (case filter (\<lambda>c. cfg_RepositoryUUID c = repo_UUID p) cfgs of
                       [] \<Rightarrow> [None] | cs \<Rightarrow> map Some cs).
           (case c of None \<Rightarrow> False | Some c \<Rightarrow> cfg_OrgID c = orgID) \<or> repo_Public p"
proof (cases "repo_Public p")
  case True
  then show ?thesis by (cases "filter (\<lambda>c. cfg_RepositoryUUID c = repo_UUID p) cfgs") auto
next
  case False
  with assms obtain c where c: "c \<in> set cfgs" "cfg_RepositoryUUID c = repo_UUID p" "cfg_OrgID c = orgID"
    by blast
  then have in_f: "c \<in> set (filter (\<lambda>c. cfg_RepositoryUUID c = repo_UUID p) cfgs)" by simp
  then obtain x xs where ne: "filter (\<lambda>c. cfg_RepositoryUUID c = repo_UUID p) cfgs = x # xs"
    by (cases "filter (\<lambda>c. cfg_RepositoryUUID c = repo_UUID p) cfgs") auto
  have "Some c \<in> set (map Some (x # xs))" using in_f unfolding ne by auto
  moreover have "(case Some c of None \<Rightarrow> False | Some c \<Rightarrow> cfg_OrgID c = orgID) \<or> repo_Public p"
    using c(3) by simp
  ultimately show ?thesis unfolding ne list.case by blast
qed

lemma in_concat_mapI: "x \<in> set xs \<Longrightarrow> y \<in> set (f x) \<Longrightarrow> y \<in> set (concat (map f xs))"
  by auto

lemma search_rows_statements [simp]:
  "search_rows orgID urls pattern (d\<lparr>statements := s\<rparr>) = search_rows orgID urls pattern d"
  by (simp add: search_rows_def cong: if_cong)

lemma search_rows_member:
  assumes "r \<in> set (rpms d)" "p \<in> set (repositories d)"
    and "\<lparr>rr_RepositoryUUID = repo_UUID p, rr_RpmUUID = rpm_UUID r\<rparr> \<in> set (repositories_rpms d)"
    and "repo_Public p \<or> (\<exists>c \<in> set (repository_configurations d).
            cfg_RepositoryUUID c = repo_UUID p \<and> cfg_OrgID c = orgID)"
    and "like pattern (rpm_Name r)" "repo_URL p \<in> set urls"
  shows "r \<in> set (search_rows orgID urls pattern d)"
proof -
  from left_join_candidates [OF assms(4)] obtain c where
    c: "c \<in> set (case filter (\<lambda>c. cfg_RepositoryUUID c = repo_UUID p) (repository_configurations d) of
                       [] \<Rightarrow> [None] | cs \<Rightarrow> map Some cs)"
       "(case c of None \<Rightarrow> False | Some c \<Rightarrow> cfg_OrgID c = orgID) \<or> repo_Public p"
    by blast
  let ?m = "\<lparr>rr_RepositoryUUID = repo_UUID p, rr_RpmUUID = rpm_UUID r\<rparr>"
  have e1: "rr_RpmUUID ?m = rpm_UUID r" and e2: "repo_UUID p = rr_RepositoryUUID ?m" by simp_all
  show ?thesis
    unfolding search_rows_def
    apply (rule in_concat_mapI [OF assms(1)])
    apply (rule in_concat_mapI [OF assms(3)])
    apply (subst if_P [OF e1])
    apply (rule in_concat_mapI [OF assms(2)])
    apply (subst if_P [OF e2])
    apply (rule in_concat_mapI [OF c(1)])
    apply (simp add: c(2) assms(5) assms(6))
    done
qed

section \<open>Properties\<close>

text \<open>
  C9. PagedRpmInsert on an empty input returns count 0 and no error, and the store is
  handed back as it was: no statement has been sent, no identifier drawn, no table changed.
\<close>

theorem PagedRpmInsert_empty:
  "PagedRpmInsert r [] d = Some (Returns (d, 0, None))"
  by (simp add: PagedRpmInsert_def)

text \<open>
  C10. Whatever the options, GetRpmDao stores a strictly positive chunk size, given that
  the constant \<open>config.DefaultPagedRpmInsertsLimit\<close> is positive; so the index of the
  loop in PagedRpmInsert grows in every iteration and the call returns, without a panic,
  for every input and every store, failing or not.
\<close>

theorem GetRpmDao_limit_positive:
  assumes "0 < DefaultPagedRpmInsertsLimit"
  shows "0 < pagedRpmInsertsLimit (GetRpmDao DefaultPagedRpmInsertsLimit configured options)
       \<and> (\<forall>i. i < i + pagedRpmInsertsLimit (GetRpmDao DefaultPagedRpmInsertsLimit configured options))
       \<and> (\<exists>res. PagedRpmInsert (GetRpmDao DefaultPagedRpmInsertsLimit configured options) pkgs d
                  = Some (Returns res))"
proof -
  let ?r = "GetRpmDao DefaultPagedRpmInsertsLimit configured options"
  have pos: "0 < pagedRpmInsertsLimit ?r"
    using assms by (simp add: GetRpmDao_def Let_def)
  have "\<exists>res. PagedRpmInsert ?r pkgs d = Some (Returns res)"
    using paged_loop_returns [OF pos, of 0] by (simp add: PagedRpmInsert_def)
  with pos show ?thesis by simp
qed

theorem GetRpmDao_limit_positive_witness:
  "(0::int) < 500
   \<and> 0 < pagedRpmInsertsLimit (GetRpmDao 500 0 (Some (Some (- 3))))
   \<and> (\<forall>i. i < i + pagedRpmInsertsLimit (GetRpmDao 500 0 (Some (Some (- 3)))))
   \<and> (\<exists>res. PagedRpmInsert (GetRpmDao 500 0 (Some (Some (- 3)))) [pkg_c] db0 = Some (Returns res))"
proof -
  have h: "(0::int) < 500" by simp
  show ?thesis
    using h GetRpmDao_limit_positive [OF h, of 0 "Some (Some (- 3))" "[pkg_c]" db0] by simp
qed

text \<open>
  C2. On a store that answers, with a positive chunk size: PagedRpmInsert returns
  without error; the count and the tables it leaves are the same for any two positive
  chunk sizes; and when the N candidates have pairwise distinct checksums the count is
  N minus the number M of candidates whose checksum is already in the table.
\<close>

theorem PagedRpmInsert_count_chunking:
  assumes "0 < pagedRpmInsertsLimit r" and "0 < pagedRpmInsertsLimit r'" and "faults d = []"
  shows "\<exists>d1 d2 n.
           PagedRpmInsert r pkgs d = Some (Returns (d1, n, None))
         \<and> PagedRpmInsert r' pkgs d = Some (Returns (d2, n, None))
         \<and> contents d1 = contents d2 \<and> uuids_drawn d1 = uuids_drawn d2
         \<and> (distinct (map rpm_Checksum pkgs) \<longrightarrow>
              n = int (length pkgs)
                  - int (length (filter (\<lambda>p. rpm_Checksum p \<in> rpm_Checksum ` set (rpms d)) pkgs)))"
proof -
  let ?R = "insert_rpms (uuid_source d) (uuids_drawn d) (rpms d) pkgs"
  from PagedRpmInsert_healthy [OF assms(1) assms(3), of pkgs]
  obtain s where 1: "PagedRpmInsert r pkgs d =
      Some (Returns (d\<lparr>rpms := fst ?R, uuids_drawn := uuids_drawn d + length pkgs, statements := s\<rparr>,
                     snd ?R, None))"
    by blast
  from PagedRpmInsert_healthy [OF assms(2) assms(3), of pkgs]
  obtain s' where 2: "PagedRpmInsert r' pkgs d =
      Some (Returns (d\<lparr>rpms := fst ?R, uuids_drawn := uuids_drawn d + length pkgs, statements := s'\<rparr>,
                     snd ?R, None))"
    by blast
  have 3: "distinct (map rpm_Checksum pkgs) \<longrightarrow>
        snd ?R = int (length pkgs)
                  - int (length (filter (\<lambda>p. rpm_Checksum p \<in> rpm_Checksum ` set (rpms d)) pkgs))"
    using insert_rpms_distinct by blast
  show ?thesis
    unfolding 1 2 using 3 by (simp add: contents_def)
qed

theorem PagedRpmInsert_count_chunking_witness:
  "0 < pagedRpmInsertsLimit \<lparr>pagedRpmInsertsLimit = 1\<rparr>
   \<and> 0 < pagedRpmInsertsLimit \<lparr>pagedRpmInsertsLimit = 2\<rparr>
   \<and> faults db0 = []
   \<and> distinct (map rpm_Checksum [pkg_c, pkg_a, pkg_b])
   \<and> (\<exists>d1 d2.
         PagedRpmInsert \<lparr>pagedRpmInsertsLimit = 1\<rparr> [pkg_c, pkg_a, pkg_b] db0 = Some (Returns (d1, 1, None))
       \<and> PagedRpmInsert \<lparr>pagedRpmInsertsLimit = 2\<rparr> [pkg_c, pkg_a, pkg_b] db0 = Some (Returns (d2, 1, None))
       \<and> contents d1 = contents d2)"
proof -
  have h: "0 < pagedRpmInsertsLimit \<lparr>pagedRpmInsertsLimit = 1\<rparr>"
    "0 < pagedRpmInsertsLimit \<lparr>pagedRpmInsertsLimit = 2\<rparr>" "faults db0 = []"
    by (simp_all add: db0_def)
  have dist: "distinct (map rpm_Checksum [pkg_c, pkg_a, pkg_b])"
    by (simp add: pkg_a_def pkg_b_def pkg_c_def)
  have m: "int (length [pkg_c, pkg_a, pkg_b])
        - int (length (filter (\<lambda>p. rpm_Checksum p \<in> rpm_Checksum ` set (rpms db0)) [pkg_c, pkg_a, pkg_b])) = 1"
    by (simp add: db0_def pkg_a_def pkg_b_def pkg_c_def)
  from PagedRpmInsert_count_chunking [OF h, of "[pkg_c, pkg_a, pkg_b]"] dist
  have "\<exists>d1 d2 n.
           PagedRpmInsert \<lparr>pagedRpmInsertsLimit = 1\<rparr> [pkg_c, pkg_a, pkg_b] db0 = Some (Returns (d1, n, None))
         \<and> PagedRpmInsert \<lparr>pagedRpmInsertsLimit = 2\<rparr> [pkg_c, pkg_a, pkg_b] db0 = Some (Returns (d2, n, None))
         \<and> contents d1 = contents d2 \<and> n = 1"
    unfolding m by blast
  then show ?thesis using h dist by blast
qed



text \<open>
  C4. deleteUnneeded on a store that answers, for a package \<open>p\<close> associated with the
  repository and absent from the wanted identifiers, so that this association is being
  removed: the association is gone afterwards; when it was the only association of
  \<open>p\<close>, no row with the identifier of \<open>p\<close> is left in the package table; when another
  repository is associated with \<open>p\<close>, the row \<open>p\<close> stays, and so does every
  association of the other repositories.
\<close>

theorem deleteUnneeded_orphans:
  assumes "faults d = []"
    and "p \<in> set (rpms d)"
    and "\<lparr>rr_RepositoryUUID = repo_UUID repo, rr_RpmUUID = rpm_UUID p\<rparr> \<in> set (repositories_rpms d)"
    and "rpm_UUID p \<notin> set rpm_uuids"
  shows "\<exists>d'. deleteUnneeded repo rpm_uuids d = (d', None)
     \<and> \<lparr>rr_RepositoryUUID = repo_UUID repo, rr_RpmUUID = rpm_UUID p\<rparr> \<notin> set (repositories_rpms d')
     \<and> ((\<forall>m \<in> set (repositories_rpms d). rr_RpmUUID m = rpm_UUID p \<longrightarrow> rr_RepositoryUUID m = repo_UUID repo)
          \<longrightarrow> rpm_UUID p \<notin> rpm_UUID ` set (rpms d'))
     \<and> ((\<exists>m \<in> set (repositories_rpms d). rr_RpmUUID m = rpm_UUID p \<and> rr_RepositoryUUID m \<noteq> repo_UUID repo)
          \<longrightarrow> p \<in> set (rpms d')
              \<and> (\<forall>m \<in> set (repositories_rpms d).
                    rr_RepositoryUUID m \<noteq> repo_UUID repo \<longrightarrow> m \<in> set (repositories_rpms d')))"
proof -
  define del where "del = difference (map rr_RpmUUID (filter (\<lambda>m. rr_RepositoryUUID m = repo_UUID repo)
                                   (repositories_rpms d))) rpm_uuids"
  define kept where "kept = filter (\<lambda>m. \<not> (rr_RepositoryUUID m = repo_UUID repo \<and> rr_RpmUUID m \<in> set del))
                      (repositories_rpms d)"
  from deleteUnneeded_healthy [OF assms(1), of repo rpm_uuids]
  obtain s where run: "deleteUnneeded repo rpm_uuids d =
     (d\<lparr>rpms := filter (\<lambda>r. \<not> (rpm_UUID r \<in> set del \<and> rpm_UUID r \<notin> rr_RpmUUID ` set kept)) (rpms d),
        repositories_rpms := kept, statements := s\<rparr>, None)"
    unfolding del_def kept_def by blast
  have "rpm_UUID p \<in> rr_RpmUUID ` {m \<in> set (repositories_rpms d). rr_RepositoryUUID m = repo_UUID repo}"
    using assms(3) by force
  then have in_del: "rpm_UUID p \<in> set del"
    using assms(4) by (simp add: del_def difference_def)
  have gone: "\<lparr>rr_RepositoryUUID = repo_UUID repo, rr_RpmUUID = rpm_UUID p\<rparr> \<notin> set kept"
    using in_del by (simp add: kept_def)
  have only: "rpm_UUID p \<notin> rr_RpmUUID ` set kept"
    if "\<forall>m \<in> set (repositories_rpms d). rr_RpmUUID m = rpm_UUID p \<longrightarrow> rr_RepositoryUUID m = repo_UUID repo"
    using that in_del by (auto simp: kept_def)
  have other: "rpm_UUID p \<in> rr_RpmUUID ` set kept"
    if "\<exists>m \<in> set (repositories_rpms d). rr_RpmUUID m = rpm_UUID p \<and> rr_RepositoryUUID m \<noteq> repo_UUID repo"
    using that by (force simp: kept_def)
  have others_kept: "\<forall>m \<in> set (repositories_rpms d). rr_RepositoryUUID m \<noteq> repo_UUID repo \<longrightarrow> m \<in> set kept"
    by (simp add: kept_def)
  show ?thesis
    unfolding run using gone only other others_kept assms(2) in_del by auto
qed

theorem deleteUnneeded_orphans_witness:
  "faults db0 = [] \<and> pkg_a \<in> set (rpms db0) \<and> pkg_b \<in> set (rpms db0)
   \<and> \<lparr>rr_RepositoryUUID = repo_UUID repo_x, rr_RpmUUID = rpm_UUID pkg_a\<rparr> \<in> set (repositories_rpms db0)
   \<and> \<lparr>rr_RepositoryUUID = repo_UUID repo_x, rr_RpmUUID = rpm_UUID pkg_b\<rparr> \<in> set (repositories_rpms db0)
   \<and> rpm_UUID pkg_a \<notin> set [] \<and> rpm_UUID pkg_b \<notin> set []
   \<and> (\<exists>d'. deleteUnneeded repo_x [] db0 = (d', None)
          \<and> rpm_UUID pkg_a \<notin> rpm_UUID ` set (rpms d')
          \<and> pkg_b \<in> set (rpms d')
          \<and> \<lparr>rr_RepositoryUUID = ''r-y'', rr_RpmUUID = ''u-b''\<rparr> \<in> set (repositories_rpms d'))"
proof -
  have h: "faults db0 = []" by (simp add: db0_def)
  have a: "pkg_a \<in> set (rpms db0)" and b: "pkg_b \<in> set (rpms db0)" by (simp_all add: db0_def)
  have ma: "\<lparr>rr_RepositoryUUID = repo_UUID repo_x, rr_RpmUUID = rpm_UUID pkg_a\<rparr> \<in> set (repositories_rpms db0)"
    and mb: "\<lparr>rr_RepositoryUUID = repo_UUID repo_x, rr_RpmUUID = rpm_UUID pkg_b\<rparr> \<in> set (repositories_rpms db0)"
    by (simp_all add: db0_def repo_x_def pkg_a_def pkg_b_def)
  have na: "rpm_UUID pkg_a \<notin> set []" and nb: "rpm_UUID pkg_b \<notin> set []" by simp_all
  have only_a: "\<forall>m \<in> set (repositories_rpms db0). rr_RpmUUID m = rpm_UUID pkg_a \<longrightarrow> rr_RepositoryUUID m = repo_UUID repo_x"
    by (simp add: db0_def repo_x_def pkg_a_def)
  have other_b: "\<exists>m \<in> set (repositories_rpms db0). rr_RpmUUID m = rpm_UUID pkg_b \<and> rr_RepositoryUUID m \<noteq> repo_UUID repo_x"
    by (simp add: db0_def repo_x_def pkg_b_def)
  have y: "\<lparr>rr_RepositoryUUID = ''r-y'', rr_RpmUUID = ''u-b''\<rparr> \<in> set (repositories_rpms db0)"
    "rr_RepositoryUUID \<lparr>rr_RepositoryUUID = ''r-y'', rr_RpmUUID = ''u-b''\<rparr> \<noteq> repo_UUID repo_x"
    by (simp_all add: db0_def repo_x_def)
  from deleteUnneeded_orphans [OF h a ma na] only_a
  obtain d' where 1: "deleteUnneeded repo_x [] db0 = (d', None)" "rpm_UUID pkg_a \<notin> rpm_UUID ` set (rpms d')"
    by blast
  from deleteUnneeded_orphans [OF h b mb nb] other_b 1(1) y
  have 2: "pkg_b \<in> set (rpms d')"
    "\<lparr>rr_RepositoryUUID = ''r-y'', rr_RpmUUID = ''u-b''\<rparr> \<in> set (repositories_rpms d')"
    by auto
  show ?thesis using h a b ma mb 1 2 by simp
qed

text \<open>
  C3. The run of InsertForRepository with an empty manifest on the small store, for
  repository \<open>r-x\<close>: both associations of \<open>r-x\<close> are removed and the package left
  without association is deleted, seven statements are sent and the count is 0; but
  the association rows to create are then an empty slice, which Create refuses, and the
  call returns the error \<open>failed to Create: empty slice found\<close>. PagedRpmInsert guards
  its Create against the empty slice; this Create has no such guard.
\<close>

theorem InsertForRepository_empty_manifest:
  "InsertForRepository \<lparr>pagedRpmInsertsLimit = 500\<rparr> ''r-x'' [] db0 =
     Some (Returns
       (db0\<lparr>rpms := [pkg_b],
            repositories_rpms := [\<lparr>rr_RepositoryUUID = ''r-y'', rr_RpmUUID = ''u-b''\<rparr>],
            statements := 7\<rparr>,
        0, Some (Wrapf ''failed to Create: '' ErrEmptySlice)))"
  by (simp add: InsertForRepository_def fetchRepo_def first_repository_def send_def
      pluck_checksums_def pluck_uuids_def query_def PagedRpmInsert_def deleteUnneeded_def
      pluck_repo_rpm_uuids_def delete_repository_rpms_def pluck_dangling_def delete_rpms_def
      difference_def prepRepositoryRpms_def create_repository_rpms_def Let_def
      db0_def repo_x_def repo_y_def pkg_a_def pkg_b_def)

text \<open>
  C1. On a store that answers and with a positive chunk size, for every repository
  identifier (known or not) and every manifest: InsertForRepository returns, and run
  again on the state it leaves it returns the count 0 and leaves all four tables, so
  in particular the set of associations, as they were after the first run.
\<close>

theorem InsertForRepository_idempotent:
  assumes "0 < pagedRpmInsertsLimit r" and "faults d = []"
  shows "\<exists>d1 n1 e1 d2 e2.
           InsertForRepository r repoUuid pkgs d = Some (Returns (d1, n1, e1))
         \<and> InsertForRepository r repoUuid pkgs d1 = Some (Returns (d2, 0, e2))
         \<and> contents d2 = contents d1
         \<and> set (repositories_rpms d2) = set (repositories_rpms d1)"
proof (cases "filter (\<lambda>p. repo_UUID p = repoUuid) (repositories d)")
  case Nil
  from InsertForRepository_unknown [OF assms(2) Nil, of r pkgs]
  obtain d1 where 1: "InsertForRepository r repoUuid pkgs d =
            Some (Returns (d1, 0, Some (Wrapf ''failed to fetchRepo: '' ErrRecordNotFound)))"
      "contents d1 = contents d" "faults d1 = []"
    by blast
  have "filter (\<lambda>p. repo_UUID p = repoUuid) (repositories d1) = []"
    using Nil 1(2) by (simp add: contents_eq_iff)
  from InsertForRepository_unknown [OF 1(3) this, of r pkgs]
  obtain d2 where 2: "InsertForRepository r repoUuid pkgs d1 =
            Some (Returns (d2, 0, Some (Wrapf ''failed to fetchRepo: '' ErrRecordNotFound)))"
      "contents d2 = contents d1"
    by blast
  from 2(2) have "set (repositories_rpms d2) = set (repositories_rpms d1)"
    by (simp add: contents_eq_iff)
  with 1(1) 2 show ?thesis by blast
next
  case (Cons repo rest)
  from InsertForRepository_first_run [OF assms Cons, of pkgs]
  obtain d1 n1 e1 where 1: "InsertForRepository r repoUuid pkgs d = Some (Returns (d1, n1, e1))"
    "faults d1 = []" "repositories d1 = repositories d" "reconciled repoUuid (map yum_Checksum pkgs) d1"
    by blast
  have found: "filter (\<lambda>p. repo_UUID p = repoUuid) (repositories d1) = repo # rest"
    using Cons 1(3) by simp
  from InsertForRepository_again [OF 1(2) found 1(4), of r]
  obtain d2 e2 where 2: "InsertForRepository r repoUuid pkgs d1 = Some (Returns (d2, 0, e2))"
    "contents d2 = contents d1"
    by blast
  from 2(2) have "set (repositories_rpms d2) = set (repositories_rpms d1)"
    by (simp add: contents_eq_iff)
  with 1(1) 2 show ?thesis by blast
qed

theorem InsertForRepository_idempotent_witness:
  "0 < pagedRpmInsertsLimit \<lparr>pagedRpmInsertsLimit = 2\<rparr> \<and> faults db0 = []
   \<and> (\<exists>d1 n1 e1 d2 e2.
           InsertForRepository \<lparr>pagedRpmInsertsLimit = 2\<rparr> ''r-y'' [yum_c] db0 = Some (Returns (d1, n1, e1))
         \<and> InsertForRepository \<lparr>pagedRpmInsertsLimit = 2\<rparr> ''r-y'' [yum_c] d1 = Some (Returns (d2, 0, e2))
         \<and> contents d2 = contents d1
         \<and> set (repositories_rpms d2) = set (repositories_rpms d1))"
proof -
  have h1: "0 < pagedRpmInsertsLimit \<lparr>pagedRpmInsertsLimit = 2\<rparr>" by simp
  have h2: "faults db0 = []" by (simp add: db0_def)
  show ?thesis
    using h1 h2 InsertForRepository_idempotent [OF h1 h2, of "''r-y''" "[yum_c]"] by blast
qed

text \<open>
  C5, as the claim states it, fails in one direction: repository \<open>r-x\<close> of the small
  store is public, is stored with the URL \<open>http://x\<close> and holds \<open>demo-lib\<close>, yet a
  request for \<open>http://x/\<close> finds nothing. Search only ever appends a slash to the
  requested URL; it never removes one.
\<close>

theorem Search_slash_requested_counterexample:
  "Search ''acme'' \<lparr>req_URLs = [''http://x/''], req_Search = ''demo''\<rparr> 10 db0 =
     (db0\<lparr>statements := 1\<rparr>, [], None)
   \<and> repo_x \<in> set (repositories db0) \<and> repo_URL repo_x = ''http://x'' \<and> repo_Public repo_x
   \<and> pkg_a \<in> set (rpms db0) \<and> rpm_Name pkg_a = ''demo-lib''
   \<and> \<lparr>rr_RepositoryUUID = repo_UUID repo_x, rr_RpmUUID = rpm_UUID pkg_a\<rparr> \<in> set (repositories_rpms db0)"
  by (simp add: Search_def query_def send_def search_rows_def offset_limit_def upt_rec
      db0_def pkg_a_def pkg_b_def repo_x_def repo_y_def config_y_def)


text \<open>
  C5, amended. Search matches a requested URL against the same URL and against the URL
  followed by one slash. On a store that answers, for a non-empty organisation: a
  package whose name matches the pattern and which belongs to a visible repository
  stored as the requested URL, with or without a slash appended, has its name in the
  result, unless the result was cut at \<open>limit\<close> rows.
\<close>

theorem Search_trailing_slash:
  assumes "faults d = []" and "orgID \<noteq> []"
    and "url \<in> set (req_URLs request)"
    and "p \<in> set (repositories d)"
    and "repo_URL p = url \<or> repo_URL p = url @ ''/''"
    and "repo_Public p \<or> (\<exists>c \<in> set (repository_configurations d).
            cfg_RepositoryUUID c = repo_UUID p \<and> cfg_OrgID c = orgID)"
    and "r \<in> set (rpms d)"
    and "\<lparr>rr_RepositoryUUID = repo_UUID p, rr_RpmUUID = rpm_UUID r\<rparr> \<in> set (repositories_rpms d)"
    and "like (req_Search request @ ''%'') (rpm_Name r)"
  shows "\<exists>d' rows. Search orgID request limit d = (d', rows, None)
           \<and> (rpm_Name r \<in> res_PackageName ` set rows \<or> (0 < limit \<and> int (length rows) = limit))"
proof -
  let ?urls = "search_urls (req_URLs request)"
  let ?hits = "search_rows orgID ?urls (req_Search request @ ''%'') d"
  let ?all = "map (\<lambda>r. \<lparr>res_PackageName = rpm_Name r, res_Summary = rpm_Summary r\<rparr>)
                (distinct_on rpm_Name (sort_key rpm_Name ?hits))"
  have ne: "length (req_URLs request) \<noteq> 0" using assms(3) by auto
  have "repo_URL p \<in> set ?urls"
    using assms(3) assms(5) by (auto simp: search_urls_set)
  from search_rows_member [OF assms(7) assms(4) assms(8) assms(6) assms(9) this]
  have "r \<in> set ?hits" .
  then have "rpm_Name r \<in> rpm_Name ` set (sort_key rpm_Name ?hits)" by simp
  then have "rpm_Name r \<in> rpm_Name ` set (distinct_on rpm_Name (sort_key rpm_Name ?hits))"
    by (simp only: distinct_on_keys)
  then have named: "rpm_Name r \<in> res_PackageName ` set ?all" by force
  have run: "\<exists>d'. Search orgID request limit d = (d', offset_limit 0 limit ?all, None)"
    using assms(1) assms(2) ne
    by (simp add: Search_def query_healthy Let_def)
  have "rpm_Name r \<in> res_PackageName ` set (offset_limit 0 limit ?all)
        \<or> (0 < limit \<and> int (length (offset_limit 0 limit ?all)) = limit)"
  proof (cases "0 < limit \<and> nat limit < length ?all")
    case True
    then have "int (length (offset_limit 0 limit ?all)) = limit"
      by (simp add: offset_limit_def Let_def del: length_map)
    with True show ?thesis by blast
  next
    case False
    then have "offset_limit 0 limit ?all = ?all" by (auto simp: offset_limit_def Let_def simp del: length_map)
    with named show ?thesis by (simp only:) simp
  qed
  with run show ?thesis by blast
qed


theorem Search_trailing_slash_witness:
  "faults db0 = [] \<and> ''acme'' \<noteq> []
   \<and> ''http://y'' \<in> set (req_URLs \<lparr>req_URLs = [''http://y''], req_Search = ''demo''\<rparr>)
   \<and> repo_y \<in> set (repositories db0)
   \<and> (repo_URL repo_y = ''http://y'' \<or> repo_URL repo_y = ''http://y'' @ ''/'')
   \<and> (repo_Public repo_y \<or> (\<exists>c \<in> set (repository_configurations db0).
            cfg_RepositoryUUID c = repo_UUID repo_y \<and> cfg_OrgID c = ''acme''))
   \<and> pkg_b \<in> set (rpms db0)
   \<and> \<lparr>rr_RepositoryUUID = repo_UUID repo_y, rr_RpmUUID = rpm_UUID pkg_b\<rparr> \<in> set (repositories_rpms db0)
   \<and> like (req_Search \<lparr>req_URLs = [''http://y''], req_Search = ''demo''\<rparr> @ ''%'') (rpm_Name pkg_b)
   \<and> (\<exists>d' rows. Search ''acme'' \<lparr>req_URLs = [''http://y''], req_Search = ''demo''\<rparr> 10 db0 = (d', rows, None)
           \<and> (rpm_Name pkg_b \<in> res_PackageName ` set rows \<or> ((0::int) < 10 \<and> int (length rows) = 10)))"
proof -
  let ?req = "\<lparr>req_URLs = [''http://y''], req_Search = ''demo''\<rparr>"
  have h1: "faults db0 = []" and h2: "''acme'' \<noteq> []" by (simp_all add: db0_def)
  have h3: "''http://y'' \<in> set (req_URLs ?req)" by simp
  have h4: "repo_y \<in> set (repositories db0)" by (simp add: db0_def)
  have h5: "repo_URL repo_y = ''http://y'' \<or> repo_URL repo_y = ''http://y'' @ ''/''"
    by (simp add: repo_y_def)
  have h6: "repo_Public repo_y \<or> (\<exists>c \<in> set (repository_configurations db0).
            cfg_RepositoryUUID c = repo_UUID repo_y \<and> cfg_OrgID c = ''acme'')"
    by (simp add: db0_def repo_y_def config_y_def)
  have h7: "pkg_b \<in> set (rpms db0)" by (simp add: db0_def)
  have h8: "\<lparr>rr_RepositoryUUID = repo_UUID repo_y, rr_RpmUUID = rpm_UUID pkg_b\<rparr> \<in> set (repositories_rpms db0)"
    by (simp add: db0_def repo_y_def pkg_b_def)
  have h9: "like (req_Search ?req @ ''%'') (rpm_Name pkg_b)"
    by (simp add: pkg_b_def upt_rec)
  show ?thesis
    using h1 h2 h3 h4 h5 h6 h7 h8 h9 Search_trailing_slash [OF h1 h2 h3 h4 h5 h6 h7 h8 h9, of 10]
    by blast
qed

text \<open>
  C6. Search on the small store: \<open>demo-lib\<close> is in repository \<open>r-x\<close> twice, with epoch 1
  (scanned first) and with epoch 2. The statement orders by the name only, not by
  \<open>rpms.epoch DESC\<close> as the comment above it says, so the row kept for the name is the
  first one that arrives, here the one of the lower epoch.
\<close>

theorem Search_epoch:
  "Search ''acme'' \<lparr>req_URLs = [''http://x''], req_Search = ''demo''\<rparr> 10 db0 =
     (db0\<lparr>statements := 1\<rparr>,
      [\<lparr>res_PackageName = ''demo-lib'', res_Summary = ''old summary''\<rparr>], None)
   \<and> rpm_Epoch pkg_a < rpm_Epoch pkg_b \<and> rpm_Summary pkg_b = ''new summary''"
  by (simp add: Search_def query_def send_def search_rows_def offset_limit_def upt_rec
      db0_def pkg_a_def pkg_b_def repo_x_def repo_y_def config_y_def)


text \<open>
  C7, as the claim states it, fails for the empty organisation identifier:
  configuration \<open>c-y\<close> belongs to \<open>acme\<close>, not to the caller, and List answers with the
  error about the empty orgID, not with the one about ownership.
\<close>

theorem List_empty_orgID_counterexample:
  "List id [] ''c-y'' 10 0 db0 =
     (db0, empty_response, 0, Some (Errorf ''orgID can not be an empty string''))
   \<and> repository_configurations db0 = [config_y] \<and> cfg_UUID config_y = ''c-y''
   \<and> cfg_OrgID config_y = ''acme''"
  by (simp add: List_def db0_def config_y_def)


text \<open>
  C7, amended. For a configuration identifier that no configuration of the caller's
  organisation carries (unknown identifiers included), List returns the zero response,
  the total 0 and an error, and changes no table, whatever the store does; the error
  is the one about the empty orgID when the orgID is empty, and for a non-empty orgID
  it is \<open>repositoryConfigUUID = ... is not owned\<close>, unless the store failed the
  ownership query, in which case it is the translated store error.
\<close>

theorem List_not_owned:
  assumes "filter (\<lambda>c. cfg_OrgID c = orgID \<and> cfg_UUID c = repositoryConfigUUID)
             (repository_configurations d) = []"
  shows "\<exists>d' e. List DBErrorToApi orgID repositoryConfigUUID limit offset d = (d', empty_response, 0, Some e)
           \<and> contents d' = contents d
           \<and> (orgID = [] \<longrightarrow> e = Errorf ''orgID can not be an empty string'')
           \<and> (orgID \<noteq> [] \<longrightarrow>
                e = Errorf (''repositoryConfigUUID = '' @ repositoryConfigUUID @ '' is not owned'')
                \<or> (faults d \<noteq> [] \<and> (\<exists>err. e = DBErrorToApi err)))"
proof (cases "orgID = []")
  case True
  then show ?thesis by (simp add: List_def)
next
  case False
  from isOwnedRepository_not_owned [OF assms]
  obtain d' e where o: "isOwnedRepository orgID repositoryConfigUUID d = (d', False, e)"
    "faults d = [] \<longrightarrow> e = None" "contents d' = contents d"
    by blast
  show ?thesis
  proof (cases e)
    case None
    then show ?thesis using False o by (simp add: List_def)
  next
    case (Some err)
    with o(2) have "faults d \<noteq> []" by auto
    with Some show ?thesis using False o by (auto simp: List_def)
  qed
qed

theorem List_not_owned_witness:
  "filter (\<lambda>c. cfg_OrgID c = ''evil'' \<and> cfg_UUID c = ''c-y'') (repository_configurations db0) = []
   \<and> ''evil'' \<noteq> [] \<and> faults db0 = []
   \<and> (\<exists>d'. List id ''evil'' ''c-y'' 10 0 db0 =
         (d', empty_response, 0, Some (Errorf ''repositoryConfigUUID = c-y is not owned''))
         \<and> contents d' = contents db0)"
proof -
  have h: "filter (\<lambda>c. cfg_OrgID c = ''evil'' \<and> cfg_UUID c = ''c-y'') (repository_configurations db0) = []"
    by (simp add: db0_def config_y_def)
  have f: "faults db0 = []" by (simp add: db0_def)
  show ?thesis
    using h f List_not_owned [OF h, of id 10 0] by auto
qed

end
